theory Spec2Isabelle
  imports Main "HOL-Library.Word" "HOL-Library.Multiset" "HOL-Library.Char_ord"
    "HOL-Library.List_Lexorder" "HOL-Library.Product_Lexorder"
begin

section \<open>Go strings and the library functions the detectors call\<close>

text \<open>
  A Go string is a sequence of bytes, and so is a \<^typ>\<open>string\<close> here; text is UTF-8. The
  functions of Go's \<open>strings\<close>, \<open>fmt\<close> and \<open>path/filepath\<close> packages that the scanners
  call are written out on bytes. A file is the list of its lines as \<open>bufio.Scanner\<close>
  delivers them.
\<close>

fun HasPrefix :: "string \<Rightarrow> string \<Rightarrow> bool" where
  "HasPrefix s [] = True"
| "HasPrefix [] (p # ps) = False"
| "HasPrefix (c # cs) (p # ps) = (c = p \<and> HasPrefix cs ps)"

fun Contains :: "string \<Rightarrow> string \<Rightarrow> bool" where
  "Contains [] sub = (sub = [])"
| "Contains (c # cs) sub = (HasPrefix (c # cs) sub \<or> Contains cs sub)"

text \<open>\<open>strings.Index\<close>: the position of the first occurrence, \<open>-1\<close> when there is none.\<close>

fun Index :: "string \<Rightarrow> string \<Rightarrow> int" where
  "Index [] sub = (if sub = [] then 0 else - 1)"
| "Index (c # cs) sub =
     (if HasPrefix (c # cs) sub then 0
      else (let i = Index cs sub in if i < 0 then - 1 else i + 1))"

text \<open>\<open>strings.IndexAny\<close>: the position of the first byte that is in \<open>chars\<close>.\<close>

fun IndexAny :: "string \<Rightarrow> string \<Rightarrow> int" where
  "IndexAny [] chars = - 1"
| "IndexAny (c # cs) chars =
     (if c \<in> set chars then 0
      else (let i = IndexAny cs chars in if i < 0 then - 1 else i + 1))"

text \<open>
  White space is what \<open>unicode.IsSpace\<close> accepts: the six ASCII white-space bytes and
  the code points U+0085, U+00A0, U+1680, U+2000 to U+200A, U+2028, U+2029, U+202F,
  U+205F and U+3000, each in its UTF-8 encoding. No encoding is a prefix of another, a
  byte that starts no encoding decodes to a rune that is not white space, and no
  encoding starts inside a well-formed rune, so decoding rune by rune and matching the
  encodings byte by byte find the same white space.
\<close>

definition spaceRunes :: "string list" where
  "spaceRunes =
     [[CHR 0x09], [CHR 0x0A], [CHR 0x0B], [CHR 0x0C], [CHR 0x0D], [CHR 0x20],
      [CHR 0xC2, CHR 0x85], [CHR 0xC2, CHR 0xA0], [CHR 0xE1, CHR 0x9A, CHR 0x80],
      [CHR 0xE2, CHR 0x80, CHR 0x80], [CHR 0xE2, CHR 0x80, CHR 0x81],
      [CHR 0xE2, CHR 0x80, CHR 0x82], [CHR 0xE2, CHR 0x80, CHR 0x83],
      [CHR 0xE2, CHR 0x80, CHR 0x84], [CHR 0xE2, CHR 0x80, CHR 0x85],
      [CHR 0xE2, CHR 0x80, CHR 0x86], [CHR 0xE2, CHR 0x80, CHR 0x87],
      [CHR 0xE2, CHR 0x80, CHR 0x88], [CHR 0xE2, CHR 0x80, CHR 0x89],
      [CHR 0xE2, CHR 0x80, CHR 0x8A], [CHR 0xE2, CHR 0x80, CHR 0xA8],
      [CHR 0xE2, CHR 0x80, CHR 0xA9], [CHR 0xE2, CHR 0x80, CHR 0xAF],
      [CHR 0xE2, CHR 0x81, CHR 0x9F], [CHR 0xE3, CHR 0x80, CHR 0x80]]"

text \<open>The width in bytes of the white-space rune that \<open>s\<close> starts with, \<open>0\<close> without one.\<close>

definition spaceWidth :: "string list \<Rightarrow> string \<Rightarrow> nat" where
  "spaceWidth runes s = (case find (HasPrefix s) runes of None \<Rightarrow> 0 | Some r \<Rightarrow> length r)"

text \<open>
  Dropping the leading white-space runes; \<open>k\<close> counts the bytes of the current rune that
  are still to be dropped.
\<close>

fun dropSpace :: "string list \<Rightarrow> nat \<Rightarrow> string \<Rightarrow> string" where
  "dropSpace runes k [] = []"
| "dropSpace runes (Suc k) (c # cs) = dropSpace runes k cs"
| "dropSpace runes 0 (c # cs) =
     (let w = spaceWidth runes (c # cs)
      in if w = 0 then c # cs else dropSpace runes (w - 1) cs)"

text \<open>
  \<open>strings.TrimSpace\<close>: the leading runes go first, then the trailing ones, which are
  the leading ones of the reversed string, each encoding reversed.
\<close>

definition TrimSpace :: "string \<Rightarrow> string" where
  "TrimSpace s = rev (dropSpace (map rev spaceRunes) 0 (rev (dropSpace spaceRunes 0 s)))"

definition TrimLeft :: "string \<Rightarrow> string \<Rightarrow> string" where
  "TrimLeft s cutset = dropWhile (\<lambda>c. c \<in> set cutset) s"

definition Trim :: "string \<Rightarrow> string \<Rightarrow> string" where
  "Trim s cutset =
     rev (dropWhile (\<lambda>c. c \<in> set cutset) (rev (dropWhile (\<lambda>c. c \<in> set cutset) s)))"

text \<open>\<open>strings.Fields\<close>: the maximal runs of bytes between white-space runes.\<close>

fun fieldsFrom :: "nat \<Rightarrow> string \<Rightarrow> string \<Rightarrow> string list" where
  "fieldsFrom k cur [] = (if cur = [] then [] else [cur])"
| "fieldsFrom (Suc k) cur (c # cs) = fieldsFrom k cur cs"
| "fieldsFrom 0 cur (c # cs) =
     (let w = spaceWidth spaceRunes (c # cs)
      in if w = 0 then fieldsFrom 0 (cur @ [c]) cs
         else if cur = [] then fieldsFrom (w - 1) [] cs
         else cur # fieldsFrom (w - 1) [] cs)"

definition Fields :: "string \<Rightarrow> string list" where
  "Fields s = fieldsFrom 0 [] s"

text \<open>\<open>strings.Split\<close> at a one-byte separator: one piece more than separators.\<close>

fun splitFrom :: "char \<Rightarrow> string \<Rightarrow> string \<Rightarrow> string list" where
  "splitFrom sep cur [] = [cur]"
| "splitFrom sep cur (c # cs) =
     (if c = sep then cur # splitFrom sep [] cs else splitFrom sep (cur @ [c]) cs)"

definition Split :: "string \<Rightarrow> char \<Rightarrow> string list" where
  "Split s sep = splitFrom sep [] s"

text \<open>
  \<open>strings.ToLower\<close>: a string of ASCII bytes has its letters A to Z mapped to a to z;
  a string with a byte outside ASCII is mapped rune by rune through Go's Unicode case
  tables, which are not part of this program: that mapping is the parameter
  \<open>unicodeLower\<close>.
\<close>

definition isASCII :: "string \<Rightarrow> bool" where
  "isASCII s = list_all (\<lambda>c. c < CHR 0x80) s"

definition toLowerChar :: "char \<Rightarrow> char" where
  "toLowerChar c =
     (if CHR ''A'' \<le> c \<and> c \<le> CHR ''Z'' then char_of (of_char c + (32::nat)) else c)"

definition ToLower :: "(string \<Rightarrow> string) \<Rightarrow> string \<Rightarrow> string" where
  "ToLower unicodeLower s = (if isASCII s then map toLowerChar s else unicodeLower s)"

text \<open>The verb \<open>%d\<close> of \<open>fmt.Sprintf\<close>: decimal digits, a minus sign for a negative number.\<close>

definition digitChar :: "nat \<Rightarrow> char" where
  "digitChar d = char_of (48 + d)"

function digitsOf :: "nat \<Rightarrow> string" where
  "digitsOf n = (if n < 10 then [digitChar n] else digitsOf (n div 10) @ [digitChar (n mod 10)])"
  by pat_completeness auto
termination
  by (relation "measure id") auto

definition itoa :: "int \<Rightarrow> string" where
  "itoa i = (if i < 0 then CHR ''-'' # digitsOf (nat (- i)) else digitsOf (nat i))"

text \<open>
  \<open>fmt.Sscanf(s, "%d", &x)\<close> on a token that starts with no white space: an optional
  sign, then the longest run of decimal digits, which must not be empty and must fit
  the 64-bit \<open>int\<close>; what follows the digits is left unread. \<open>None\<close> is the scan error,
  on which \<open>x\<close> keeps its value.
\<close>

definition isDigit :: "char \<Rightarrow> bool" where
  "isDigit c = (CHR ''0'' \<le> c \<and> c \<le> CHR ''9'')"

definition decimalValue :: "string \<Rightarrow> int" where
  "decimalValue tok = foldl (\<lambda>v c. 10 * v + (int (of_char c) - 48)) 0 tok"

definition scanInt :: "string \<Rightarrow> int option" where
  "scanInt s =
     (let neg = (s \<noteq> [] \<and> hd s = CHR ''-'');
          r = (if s \<noteq> [] \<and> (hd s = CHR ''-'' \<or> hd s = CHR ''+'') then tl s else s);
          tok = takeWhile isDigit r;
          v = (if neg then - decimalValue tok else decimalValue tok)
      in if tok = [] then None
         else if - (2 ^ 63) \<le> v \<and> v < 2 ^ 63 then Some v else None)"

text \<open>\<open>filepath.Ext\<close>: from the last dot of the last path element, empty without one.\<close>

fun extFrom :: "string \<Rightarrow> string \<Rightarrow> string" where
  "extFrom acc [] = []"
| "extFrom acc (c # cs) =
     (if c = CHR ''/'' then []
      else if c = CHR ''.'' then c # acc
      else extFrom (c # acc) cs)"

definition Ext :: "string \<Rightarrow> string" where
  "Ext path = extFrom [] (rev path)"

section \<open>The data model (package parser)\<close>

text \<open>
  \<open>Severity\<close> is a string type in the source, so a finding can carry any string as its
  severity. Counts are Go \<open>int\<close>, 64 bits wide; line numbers are kept as unbounded
  integers, since no file has a line count near the limit.
\<close>

type_synonym Severity = string

definition SeverityCritical :: Severity where "SeverityCritical = ''Critical''"
definition SeverityHigh :: Severity where "SeverityHigh = ''High''"
definition SeverityMedium :: Severity where "SeverityMedium = ''Medium''"
definition SeverityLow :: Severity where "SeverityLow = ''Low''"
definition SeverityInformational :: Severity where "SeverityInformational = ''Informational''"
definition SeverityOptimization :: Severity where "SeverityOptimization = ''Optimization''"

record Finding =
  ID :: string
  Source :: string
  Check :: string
  Title :: string
  Description :: string
  Severity :: Severity
  Confidence :: string
  File :: string
  Lines :: "int list"
  Remediation :: string
  SWCRef :: string
  References :: "string list"

definition SeverityRank :: "Severity \<Rightarrow> int" where
  "SeverityRank s =
     (if s = SeverityCritical then 0
      else if s = SeverityHigh then 1
      else if s = SeverityMedium then 2
      else if s = SeverityLow then 3
      else if s = SeverityInformational then 4
      else if s = SeverityOptimization then 5
      else 6)"

record Summary =
  Total :: "64 word"
  Critical :: "64 word"
  High :: "64 word"
  Medium :: "64 word"
  Low :: "64 word"
  Informational :: "64 word"
  Optimization :: "64 word"

record AnalysisReport =
  Target :: string
  GeneratedAt :: string
  Summary :: Summary
  Findings :: "Finding list"

section \<open>The scorer\<close>

definition Score :: "AnalysisReport \<Rightarrow> 64 word" where
  "Score report =
     (let score = 0;
          score = score + Critical (Summary report) * 40;
          score = score + High (Summary report) * 20;
          score = score + Medium (Summary report) * 10;
          score = score + Low (Summary report) * 3
      in if 100 <s score then 100 else score)"

section \<open>The consolidator: summary and deduplication\<close>

definition summaryStep :: "Summary \<Rightarrow> Finding \<Rightarrow> Summary" where
  "summaryStep s f =
     (if Severity f = SeverityCritical then s\<lparr>Critical := Critical s + 1\<rparr>
      else if Severity f = SeverityHigh then s\<lparr>High := High s + 1\<rparr>
      else if Severity f = SeverityMedium then s\<lparr>Medium := Medium s + 1\<rparr>
      else if Severity f = SeverityLow then s\<lparr>Low := Low s + 1\<rparr>
      else if Severity f = SeverityInformational then s\<lparr>Informational := Informational s + 1\<rparr>
      else if Severity f = SeverityOptimization then s\<lparr>Optimization := Optimization s + 1\<rparr>
      else s)"

definition buildSummary :: "Finding list \<Rightarrow> Summary" where
  "buildSummary findings =
     foldl summaryStep
       \<lparr>Total = of_nat (length findings), Critical = 0, High = 0, Medium = 0, Low = 0,
        Informational = 0, Optimization = 0\<rparr>
       findings"

text \<open>The key is a string: reference, file and, when there is one, the first line.\<close>

definition dedupKey :: "Finding \<Rightarrow> string" where
  "dedupKey f =
     (let key = SWCRef f @ ''|'' @ File f
      in case Lines f of [] \<Rightarrow> key | l # _ \<Rightarrow> key @ ''|'' @ itoa l)"

fun dedupLoop :: "(string \<Rightarrow> bool) \<Rightarrow> Finding list \<Rightarrow> Finding list \<Rightarrow> Finding list" where
  "dedupLoop seen result [] = result"
| "dedupLoop seen result (f # fs) =
     (let key = dedupKey f
      in if seen key then dedupLoop seen result fs
         else dedupLoop (seen(key := True)) (result @ [f]) fs)"

definition deduplicate :: "Finding list \<Rightarrow> Finding list" where
  "deduplicate findings = dedupLoop (\<lambda>_. False) [] findings"

section \<open>The pattern detectors (package checks)\<close>

text \<open>
  Each scanner keeps its local variables in a record and handles one line per step. The
  slice \<open>lines\<close> that the reentrancy scanner appends to is never read and is left out.
  The inner \<open>for ... break\<close> loops over the pattern lists append a finding that does not
  depend on the pattern that matched, so they are written as \<open>list_ex\<close>.
\<close>

definition apostrophe :: string where
  "apostrophe = [CHR 0x27]"

definition emDash :: string where
  "emDash = [CHR 0xE2, CHR 0x80, CHR 0x94]"

record Scan =
  findings :: "Finding list"
  lineNum :: int

definition extractFunctionName :: "string \<Rightarrow> string" where
  "extractFunctionName line =
     (let start = Index line ''function '' + 9;
          rest = drop (nat start) line;
          e = IndexAny rest ''( ''
      in if e < 0 then rest else take (nat e) rest)"

subsection \<open>Reentrancy ordering\<close>

record ReentrancyScan = Scan +
  inFunction :: bool
  functionName :: string
  sawExternalCall :: bool
  callLine :: int
  hasGuard :: bool

definition externalCallPatterns :: "string list" where
  "externalCallPatterns = [''.call{'', ''.call('', ''.delegatecall('', ''.transfer('', ''.send('']"

definition stateChangePatterns :: "string list" where
  "stateChangePatterns = [''balances['', ''balanceOf['', ''= 0;'', ''-= '', ''+= '']"

definition isFunctionStart :: "string \<Rightarrow> bool" where
  "isFunctionStart trimmed = (Contains trimmed ''function '' \<and> Contains trimmed ''('')"

definition isGuardSignal :: "string \<Rightarrow> bool" where
  "isGuardSignal trimmed =
     (Contains trimmed ''nonReentrant'' \<or> Contains trimmed ''ReentrancyGuard''
      \<or> Contains trimmed ''mutex'')"

definition isExternalCall :: "string \<Rightarrow> bool" where
  "isExternalCall trimmed =
     list_ex (\<lambda>pattern. Contains trimmed pattern \<and> \<not> HasPrefix trimmed ''//'')
       externalCallPatterns"

definition isStateChange :: "string \<Rightarrow> bool" where
  "isStateChange trimmed =
     list_ex (\<lambda>pattern. Contains trimmed pattern \<and> \<not> HasPrefix trimmed ''//'')
       stateChangePatterns"

definition reentrancyFinding :: "string \<Rightarrow> nat \<Rightarrow> string \<Rightarrow> int \<Rightarrow> int \<Rightarrow> Finding" where
  "reentrancyFinding path k fname line call =
     \<lparr>ID = ''CUSTOM-REENTRANT-'' @ itoa (int k + 1),
      Source = ''custom'',
      Check = ''custom-reentrancy-ordering'',
      Title = ''State Change After External Call (Reentrancy Risk)'',
      Description = ''In function '' @ apostrophe @ fname @ apostrophe @ '' ('' @ path
        @ '' line '' @ itoa line
        @ ''): state variable modified after external call on line '' @ itoa call @ ''. ''
        @ ''If the callee re-enters this function before the state update, it can exploit the stale state.'',
      Severity = SeverityHigh,
      Confidence = ''Medium'',
      File = path,
      Lines = [call, line],
      Remediation = ''Move all state changes BEFORE the external call (checks-effects-interactions). ''
        @ ''Alternatively, add OpenZeppelin'' @ apostrophe @ ''s nonReentrant modifier.'',
      SWCRef = ''SWC-107'',
      References = [''https://swcregistry.io/docs/SWC-107'',
        ''https://docs.openzeppelin.com/contracts/4.x/api/security#ReentrancyGuard'']\<rparr>"

text \<open>The loop body, block by block as the source comments divide it.\<close>

definition trackFunction :: "string \<Rightarrow> ReentrancyScan \<Rightarrow> ReentrancyScan" where
  "trackFunction trimmed st =
     (if isFunctionStart trimmed
      then st\<lparr>inFunction := True, sawExternalCall := False, hasGuard := False,
              functionName := extractFunctionName trimmed\<rparr>
      else st)"

definition detectGuard :: "string \<Rightarrow> ReentrancyScan \<Rightarrow> ReentrancyScan" where
  "detectGuard trimmed st = (if isGuardSignal trimmed then st\<lparr>hasGuard := True\<rparr> else st)"

definition detectCall :: "string \<Rightarrow> ReentrancyScan \<Rightarrow> ReentrancyScan" where
  "detectCall trimmed st =
     (if isExternalCall trimmed then st\<lparr>sawExternalCall := True, callLine := lineNum st\<rparr>
      else st)"

definition detectStateChange :: "string \<Rightarrow> string \<Rightarrow> ReentrancyScan \<Rightarrow> ReentrancyScan" where
  "detectStateChange path trimmed st =
     (if sawExternalCall st \<and> \<not> hasGuard st \<and> isStateChange trimmed
      then st\<lparr>findings := findings st @
             [reentrancyFinding path (length (findings st)) (functionName st) (lineNum st)
                (callLine st)]\<rparr>
      else st)"

definition resetAtClose :: "string \<Rightarrow> ReentrancyScan \<Rightarrow> ReentrancyScan" where
  "resetAtClose trimmed st =
     (if trimmed = ''}'' then st\<lparr>inFunction := False, sawExternalCall := False\<rparr> else st)"

definition reentrancyStep :: "string \<Rightarrow> ReentrancyScan \<Rightarrow> string \<Rightarrow> ReentrancyScan" where
  "reentrancyStep path st0 line =
     (let trimmed = TrimSpace line;
          st = trackFunction trimmed (st0\<lparr>lineNum := lineNum st0 + 1\<rparr>)
      in if \<not> inFunction st then st
         else resetAtClose trimmed
                (detectStateChange path trimmed (detectCall trimmed (detectGuard trimmed st))))"

definition reentrancyInit :: ReentrancyScan where
  "reentrancyInit =
     \<lparr>findings = [], lineNum = 0, inFunction = False, functionName = [],
      sawExternalCall = False, callLine = 0, hasGuard = False\<rparr>"

definition reentrancyScan :: "string \<Rightarrow> string list \<Rightarrow> Finding list" where
  "reentrancyScan path ls = findings (foldl (reentrancyStep path) reentrancyInit ls)"

subsection \<open>Access-control gap\<close>

definition sensitivePatterns :: "(string \<times> Severity \<times> string) list" where
  "sensitivePatterns =
     [(''mint'', SeverityCritical,
         ''Unrestricted minting allows anyone to inflate token supply to infinity.''),
      (''burn'', SeverityHigh,
         ''Unrestricted burning allows anyone to destroy any holder'' @ apostrophe @ ''s tokens.''),
      (''pause'', SeverityHigh,
         ''Unrestricted pause allows any caller to halt all transfers (griefing attack).''),
      (''unpause'', SeverityHigh, ''Unrestricted unpause can bypass emergency stops.''),
      (''upgradeTo'', SeverityCritical, ''Unrestricted upgrades allow full contract takeover.''),
      (''upgradeToAndCall'', SeverityCritical,
         ''Unrestricted upgrades allow full contract takeover.''),
      (''setOwner'', SeverityCritical,
         ''Unrestricted owner changes allow full protocol takeover.''),
      (''transferOwnership'', SeverityHigh,
         ''Should be guarded '' @ emDash @ '' accidental calls transfer admin rights.''),
      (''withdraw'', SeverityHigh,
         ''Unrestricted withdrawals allow draining of contract funds.''),
      (''selfdestruct'', SeverityCritical,
         ''Unrestricted selfdestruct permanently destroys the contract.'')]"

definition accessModifiers :: "string list" where
  "accessModifiers =
     [''onlyOwner'', ''onlyRole'', ''onlyAdmin'', ''onlyMinter'', ''onlyPauser'',
      ''requiresAuth'', ''restricted'', ''auth'', ''isOwner'']"

definition containsFunctionNamed :: "(string \<Rightarrow> string) \<Rightarrow> string \<Rightarrow> string \<Rightarrow> bool" where
  "containsFunctionNamed unicodeLower line keyword =
     (let lower = ToLower unicodeLower line;
          idx = Index lower (''function '' @ keyword)
      in if idx < 0 then False
         else
           (let after = drop (nat (idx + 9 + int (length keyword))) lower
            in HasPrefix after ''(''
               \<or> (length after > 0 \<and> CHR ''A'' \<le> hd after \<and> hd after \<le> CHR ''Z'')))"

definition hasAccessModifier :: "(string \<Rightarrow> string) \<Rightarrow> string \<Rightarrow> bool" where
  "hasAccessModifier unicodeLower line =
     (let lower = ToLower unicodeLower line
      in list_ex (\<lambda>m. Contains lower (ToLower unicodeLower m)) accessModifiers)"

definition accessFinding :: "string \<Rightarrow> nat \<Rightarrow> string \<Rightarrow> int \<Rightarrow> Severity \<Rightarrow> string \<Rightarrow> Finding" where
  "accessFinding path k trimmed line sev note =
     \<lparr>ID = ''CUSTOM-ACCESS-'' @ itoa (int k + 1),
      Source = ''custom'',
      Check = ''custom-missing-access-control'',
      Title = ''Missing Access Control on '' @ extractFunctionName trimmed @ ''()'',
      Description = path @ '':'' @ itoa line @ '' '' @ emDash @ '' Function '' @ apostrophe
        @ extractFunctionName trimmed @ apostrophe
        @ '' appears to be missing an access control modifier. '' @ note,
      Severity = sev,
      Confidence = ''Medium'',
      File = path,
      Lines = [line],
      Remediation = ''Add an access control modifier to '' @ apostrophe
        @ extractFunctionName trimmed @ ''()'' @ apostrophe
        @ ''. Use onlyOwner (OpenZeppelin Ownable) ''
        @ ''or onlyRole(ROLE) (OpenZeppelin AccessControl) depending on your access model.'',
      SWCRef = ''SWC-105'',
      References = [''https://swcregistry.io/docs/SWC-105'',
        ''https://docs.openzeppelin.com/contracts/4.x/access-control'']\<rparr>"

definition accessPatternStep ::
    "(string \<Rightarrow> string) \<Rightarrow> string \<Rightarrow> string \<Rightarrow> int \<Rightarrow> Finding list
       \<Rightarrow> string \<times> Severity \<times> string \<Rightarrow> Finding list" where
  "accessPatternStep unicodeLower path trimmed n fs sp =
     (case sp of (keyword, severity, note) \<Rightarrow>
        if \<not> containsFunctionNamed unicodeLower trimmed keyword then fs
        else if hasAccessModifier unicodeLower trimmed then fs
        else if Contains trimmed '' internal '' \<or> Contains trimmed '' private '' then fs
        else fs @ [accessFinding path (length fs) trimmed n severity note])"

definition accessStep :: "(string \<Rightarrow> string) \<Rightarrow> string \<Rightarrow> Scan \<Rightarrow> string \<Rightarrow> Scan" where
  "accessStep unicodeLower path st0 line =
     (let n = lineNum st0 + 1;
          trimmed = TrimSpace line;
          st = st0\<lparr>lineNum := n\<rparr>
      in if HasPrefix trimmed ''//'' \<or> HasPrefix trimmed ''*'' then st
         else if \<not> Contains trimmed ''function '' then st
         else st\<lparr>findings := foldl (accessPatternStep unicodeLower path trimmed n) (findings st)
                   sensitivePatterns\<rparr>)"

definition accessScan :: "(string \<Rightarrow> string) \<Rightarrow> string \<Rightarrow> string list \<Rightarrow> Finding list" where
  "accessScan unicodeLower path ls =
     findings (foldl (accessStep unicodeLower path) \<lparr>findings = [], lineNum = 0\<rparr> ls)"

subsection \<open>Integer overflow and unchecked arithmetic\<close>

record OverflowScan = Scan +
  solidityMajor :: int
  solidityMinor :: int
  inUnchecked :: bool
  uncheckedLine :: int

definition containsArithmetic :: "string \<Rightarrow> bool" where
  "containsArithmetic line =
     list_ex (\<lambda>op. Contains line op)
       ['' + '', '' - '', '' * '', '' / '', '' % '', ''++'', ''--'', ''+='', ''-='', ''*='', ''/='']"

text \<open>
  The named results \<open>major\<close> and \<open>minor\<close> start at zero and keep their value when a
  scan fails; the loop returns at the first token that leaves \<open>major = 0\<close> and
  \<open>minor > 0\<close>, and \<open>(0, 8)\<close> when no token does.
\<close>

fun versionLoop :: "int \<Rightarrow> int \<Rightarrow> string list \<Rightarrow> int \<times> int" where
  "versionLoop major minor [] = (0, 8)"
| "versionLoop major minor (part # rest) =
     (let cleaned = TrimLeft part ''^>=<~'';
          cleaned = Trim cleaned '';'';
          parts = Split cleaned (CHR ''.'')
      in if length parts \<ge> 2 then
           (let major = (case scanInt (parts ! 0) of Some v \<Rightarrow> v | None \<Rightarrow> major);
                minor = (case scanInt (parts ! 1) of Some v \<Rightarrow> v | None \<Rightarrow> minor)
            in if major = 0 \<and> minor > 0 then (major, minor)
               else versionLoop major minor rest)
         else versionLoop major minor rest)"

definition extractSolidityVersion :: "string \<Rightarrow> int \<times> int" where
  "extractSolidityVersion pragma = versionLoop 0 0 (Fields pragma)"

definition overflowFinding :: "string \<Rightarrow> nat \<Rightarrow> int \<Rightarrow> int \<Rightarrow> int \<Rightarrow> Finding" where
  "overflowFinding path k line major minor =
     \<lparr>ID = ''CUSTOM-OVERFLOW-'' @ itoa (int k + 1),
      Source = ''custom'',
      Check = ''custom-integer-overflow'',
      Title = ''Potential Integer Overflow (Solidity < 0.8)'',
      Description = path @ '':'' @ itoa line @ '' '' @ emDash
        @ '' Arithmetic operation in Solidity '' @ itoa major @ ''.'' @ itoa minor
        @ ''.x without SafeMath. ''
        @ ''Integer overflow/underflow silently wraps in versions before 0.8.0.'',
      Severity = SeverityHigh,
      Confidence = ''Medium'',
      File = path,
      Lines = [line],
      Remediation = ''Upgrade to Solidity ^0.8.0 where overflow/underflow revert by default. ''
        @ ''If upgrading is not possible, use OpenZeppelin SafeMath for all arithmetic.'',
      SWCRef = ''SWC-101'',
      References = [''https://swcregistry.io/docs/SWC-101'',
        ''https://docs.openzeppelin.com/contracts/4.x/api/utils#SafeMath'']\<rparr>"

definition uncheckedFinding :: "string \<Rightarrow> nat \<Rightarrow> int \<Rightarrow> int \<Rightarrow> Finding" where
  "uncheckedFinding path k line opened =
     \<lparr>ID = ''CUSTOM-UNCHECKED-'' @ itoa (int k + 1),
      Source = ''custom'',
      Check = ''custom-unchecked-arithmetic'',
      Title = ''Arithmetic Inside unchecked{} Block'',
      Description = path @ '':'' @ itoa line @ '' '' @ emDash
        @ '' Arithmetic operation inside an unchecked{} block (started line '' @ itoa opened
        @ ''). ''
        @ ''Overflow protection is deliberately disabled here. Verify this is intentional.'',
      Severity = SeverityLow,
      Confidence = ''High'',
      File = path,
      Lines = [opened, line],
      Remediation = ''Only use unchecked{} when overflow is mathematically impossible ''
        @ ''(e.g. loop counter bounded by array length). Add a comment explaining why it is safe.'',
      SWCRef = ''SWC-101'',
      References =
        [''https://docs.soliditylang.org/en/latest/control-structures.html#checked-or-unchecked-arithmetic'']\<rparr>"

text \<open>The loop body, block by block as the source comments divide it.\<close>

definition trackPragma :: "string \<Rightarrow> OverflowScan \<Rightarrow> OverflowScan" where
  "trackPragma trimmed st =
     (if HasPrefix trimmed ''pragma solidity''
      then st\<lparr>solidityMajor := fst (extractSolidityVersion trimmed),
              solidityMinor := snd (extractSolidityVersion trimmed)\<rparr>
      else st)"

definition enterUnchecked :: "string \<Rightarrow> OverflowScan \<Rightarrow> OverflowScan" where
  "enterUnchecked trimmed st =
     (if trimmed = ''unchecked {'' \<or> trimmed = ''unchecked{''
      then st\<lparr>inUnchecked := True, uncheckedLine := lineNum st\<rparr> else st)"

definition leaveUnchecked :: "string \<Rightarrow> OverflowScan \<Rightarrow> OverflowScan" where
  "leaveUnchecked trimmed st =
     (if inUnchecked st \<and> trimmed = ''}'' then st\<lparr>inUnchecked := False\<rparr> else st)"

definition flagLegacyArithmetic :: "string \<Rightarrow> string \<Rightarrow> OverflowScan \<Rightarrow> OverflowScan" where
  "flagLegacyArithmetic path trimmed st =
     (if solidityMajor st = 0 \<and> solidityMinor st < 8
      then (if containsArithmetic trimmed \<and> \<not> Contains trimmed ''SafeMath''
                \<and> \<not> HasPrefix trimmed ''//''
            then st\<lparr>findings := findings st @
                   [overflowFinding path (length (findings st)) (lineNum st) (solidityMajor st)
                      (solidityMinor st)]\<rparr>
            else st)
      else st)"

definition flagUncheckedArithmetic :: "string \<Rightarrow> string \<Rightarrow> OverflowScan \<Rightarrow> OverflowScan" where
  "flagUncheckedArithmetic path trimmed st =
     (if solidityMajor st = 0 \<and> solidityMinor st \<ge> 8 \<and> inUnchecked st
      then (if containsArithmetic trimmed \<and> \<not> HasPrefix trimmed ''//''
            then st\<lparr>findings := findings st @
                   [uncheckedFinding path (length (findings st)) (lineNum st)
                      (uncheckedLine st)]\<rparr>
            else st)
      else st)"

definition overflowStep :: "string \<Rightarrow> OverflowScan \<Rightarrow> string \<Rightarrow> OverflowScan" where
  "overflowStep path st0 line =
     (let trimmed = TrimSpace line
      in flagUncheckedArithmetic path trimmed
           (flagLegacyArithmetic path trimmed
              (leaveUnchecked trimmed
                 (enterUnchecked trimmed
                    (trackPragma trimmed (st0\<lparr>lineNum := lineNum st0 + 1\<rparr>))))))"

definition overflowInit :: OverflowScan where
  "overflowInit =
     \<lparr>findings = [], lineNum = 0, solidityMajor = 0, solidityMinor = 0, inUnchecked = False,
      uncheckedLine = 0\<rparr>"

definition overflowScan :: "string \<Rightarrow> string list \<Rightarrow> Finding list" where
  "overflowScan path ls = findings (foldl (overflowStep path) overflowInit ls)"

section \<open>Files, targets and the consolidator\<close>

text \<open>
  The file system is what the program observes of it: the outcome of \<open>os.Stat\<close> on a
  path (an error, or whether the path is a directory), the entries \<open>filepath.Walk\<close>
  visits under a directory, each with the error or file kind it hands to the callback,
  and the outcome of \<open>os.Open\<close> with the lines the scanner reads and the scanner's final
  error. The callers drop a partial result whenever an error comes with it, so a
  fallible call returns either the error or the value.
\<close>

datatype error = ErrNotExist | ErrPermission | ErrIO | Errorf string | Wrapped string error

record filesystem =
  stat :: "string \<Rightarrow> error + bool"
  walk :: "string \<Rightarrow> (string \<times> (error + bool)) list"
  openFile :: "string \<Rightarrow> error + (string list \<times> error option)"

fun walkLoop :: "(string \<times> (error + bool)) list \<Rightarrow> string list \<Rightarrow> error + string list" where
  "walkLoop [] files = Inr files"
| "walkLoop ((path, r) # rest) files =
     (case r of
        Inl err \<Rightarrow> Inl err
      | Inr isDir \<Rightarrow>
          walkLoop rest (if \<not> isDir \<and> Ext path = ''.sol'' then files @ [path] else files))"

definition solidityFiles :: "filesystem \<Rightarrow> string \<Rightarrow> error + string list" where
  "solidityFiles fs target =
     (case stat fs target of
        Inl err \<Rightarrow> Inl err
      | Inr isDir \<Rightarrow> if \<not> isDir then Inr [target] else walkLoop (walk fs target) [])"

definition checkInFile ::
    "(string \<Rightarrow> string list \<Rightarrow> Finding list) \<Rightarrow> filesystem \<Rightarrow> string \<Rightarrow> error + Finding list" where
  "checkInFile scan fs path =
     (case openFile fs path of
        Inl err \<Rightarrow> Inl (Wrapped (''opening '' @ path @ '': '') err)
      | Inr (ls, scanErr) \<Rightarrow>
          (case scanErr of Some err \<Rightarrow> Inl err | None \<Rightarrow> Inr (scan path ls)))"

definition checkReentrancyInFile :: "filesystem \<Rightarrow> string \<Rightarrow> error + Finding list" where
  "checkReentrancyInFile = checkInFile reentrancyScan"

definition checkAccessControlInFile ::
    "(string \<Rightarrow> string) \<Rightarrow> filesystem \<Rightarrow> string \<Rightarrow> error + Finding list" where
  "checkAccessControlInFile unicodeLower = checkInFile (accessScan unicodeLower)"

definition checkIntegerOverflowInFile :: "filesystem \<Rightarrow> string \<Rightarrow> error + Finding list" where
  "checkIntegerOverflowInFile = checkInFile overflowScan"

fun checkFiles ::
    "(string \<Rightarrow> error + Finding list) \<Rightarrow> string list \<Rightarrow> Finding list \<Rightarrow> error + Finding list" where
  "checkFiles check [] acc = Inr acc"
| "checkFiles check (file # files) acc =
     (case check file of
        Inl err \<Rightarrow> Inl err
      | Inr fileFindings \<Rightarrow> checkFiles check files (acc @ fileFindings))"

definition checkTarget ::
    "(filesystem \<Rightarrow> string \<Rightarrow> error + Finding list) \<Rightarrow> filesystem \<Rightarrow> string
       \<Rightarrow> error + Finding list" where
  "checkTarget checkFile fs target =
     (case solidityFiles fs target of
        Inl err \<Rightarrow> Inl err
      | Inr files \<Rightarrow> checkFiles (checkFile fs) files [])"

definition CheckReentrancy :: "filesystem \<Rightarrow> string \<Rightarrow> error + Finding list" where
  "CheckReentrancy = checkTarget checkReentrancyInFile"

definition CheckAccessControl ::
    "(string \<Rightarrow> string) \<Rightarrow> filesystem \<Rightarrow> string \<Rightarrow> error + Finding list" where
  "CheckAccessControl unicodeLower = checkTarget (checkAccessControlInFile unicodeLower)"

definition CheckIntegerOverflow :: "filesystem \<Rightarrow> string \<Rightarrow> error + Finding list" where
  "CheckIntegerOverflow = checkTarget checkIntegerOverflowInFile"

text \<open>
  \<open>Analyze\<close>: the external findings, then the findings of each check that returned no
  error, in the order reentrancy, access control, integer overflow; a check that failed
  is skipped (its warning on standard output is not modelled).
\<close>

definition customChecks ::
    "(string \<Rightarrow> string) \<Rightarrow> (filesystem \<Rightarrow> string \<Rightarrow> error + Finding list) list" where
  "customChecks unicodeLower =
     [CheckReentrancy, CheckAccessControl unicodeLower, CheckIntegerOverflow]"

definition collectFindings ::
    "(string \<Rightarrow> string) \<Rightarrow> filesystem \<Rightarrow> string \<Rightarrow> Finding list \<Rightarrow> Finding list" where
  "collectFindings unicodeLower fs target slitherFindings =
     foldl (\<lambda>allFindings c. case c fs target of Inl err \<Rightarrow> allFindings
                                | Inr fnd \<Rightarrow> allFindings @ fnd)
       slitherFindings (customChecks unicodeLower)"

text \<open>The \<open>less\<close> function handed to \<open>sort.Slice\<close>; strings compare bytewise.\<close>

definition findingLess :: "Finding \<Rightarrow> Finding \<Rightarrow> bool" where
  "findingLess a b =
     (let ri = SeverityRank (Severity a); rj = SeverityRank (Severity b)
      in if ri \<noteq> rj then ri < rj else File a < File b)"

text \<open>
  \<open>sort.Slice\<close> belongs to Go's standard library; the program requires Go 1.23, where
  \<open>sort.Slice(x, less)\<close> runs \<open>pdqsort_func\<close> on the whole slice. The functions below
  follow that algorithm through its first round: a slice of at most 12 elements is
  sorted by insertion, and a longer one is left alone when the pivot choice found its
  three samples in order and no element is less than the one before it, and is
  otherwise partitioned around the pivot, both sides then being sorted by insertion
  when neither has more than 12 elements. The later rounds (longer sides, and slices
  of 50 elements or more, where other samples are taken) are not followed.
  Indices are Go's \<open>int\<close>; \<open>data.Less(i, j)\<close> is \<open>lessAt\<close> and \<open>data.Swap(i, j)\<close> is
  \<open>swapAt\<close>.
\<close>

definition lessAt :: "('a \<Rightarrow> 'a \<Rightarrow> bool) \<Rightarrow> 'a list \<Rightarrow> int \<Rightarrow> int \<Rightarrow> bool" where
  "lessAt lt xs i j = lt (xs ! nat i) (xs ! nat j)"

definition swapAt :: "int \<Rightarrow> int \<Rightarrow> 'a list \<Rightarrow> 'a list" where
  "swapAt i j xs = xs[nat i := xs ! nat j, nat j := xs ! nat i]"

text \<open>
  \<open>insertionSort_func\<close>: each element in turn moves left past every element it is less
  than. \<open>insertLast lt xs x\<close> is the sorted part \<open>xs\<close> with the next element \<open>x\<close> moved into it.
\<close>

function insertLast :: "('a \<Rightarrow> 'a \<Rightarrow> bool) \<Rightarrow> 'a list \<Rightarrow> 'a \<Rightarrow> 'a list" where
  "insertLast lt xs x =
     (if xs \<noteq> [] \<and> lt x (last xs) then insertLast lt (butlast xs) x @ [last xs]
      else xs @ [x])"
  by pat_completeness auto
termination
  by (relation "measure (\<lambda>(lt, xs, x). length xs)") auto

definition insertionSort_func :: "('a \<Rightarrow> 'a \<Rightarrow> bool) \<Rightarrow> 'a list \<Rightarrow> 'a list" where
  "insertionSort_func lt xs = foldl (insertLast lt) [] xs"

text \<open>
  \<open>choosePivot_func\<close> on a slice of 8 to 49 elements: the median of the elements at one,
  two and three quarters, with the number of exchanges the three comparisons made.
\<close>

definition order2_func ::
    "('a \<Rightarrow> 'a \<Rightarrow> bool) \<Rightarrow> 'a list \<Rightarrow> int \<Rightarrow> int \<Rightarrow> nat \<Rightarrow> int \<times> int \<times> nat" where
  "order2_func lt xs a b swaps =
     (if lessAt lt xs b a then (b, a, swaps + 1) else (a, b, swaps))"

definition median_func ::
    "('a \<Rightarrow> 'a \<Rightarrow> bool) \<Rightarrow> 'a list \<Rightarrow> int \<Rightarrow> int \<Rightarrow> int \<Rightarrow> nat \<Rightarrow> int \<times> nat" where
  "median_func lt xs a b c swaps =
     (case order2_func lt xs a b swaps of (a, b, swaps) \<Rightarrow>
      case order2_func lt xs b c swaps of (b, c, swaps) \<Rightarrow>
      case order2_func lt xs a b swaps of (a, b, swaps) \<Rightarrow> (b, swaps))"

definition choosePivot_func ::
    "('a \<Rightarrow> 'a \<Rightarrow> bool) \<Rightarrow> 'a list \<Rightarrow> int \<Rightarrow> int \<Rightarrow> int \<times> nat" where
  "choosePivot_func lt xs a b =
     (let l = b - a; i = a + l div 4 * 1; j = a + l div 4 * 2; k = a + l div 4 * 3
      in if l \<ge> 8 then median_func lt xs i j k 0 else (j, 0))"

text \<open>
  \<open>partialInsertionSort_func\<close> on a slice of fewer than 50 elements changes nothing and
  reports whether no element is less than the one before it.
\<close>

definition partialInsertionSort_func :: "('a \<Rightarrow> 'a \<Rightarrow> bool) \<Rightarrow> 'a list \<Rightarrow> bool" where
  "partialInsertionSort_func lt xs =
     list_all (\<lambda>i. \<not> lt (xs ! i) (xs ! (i - 1))) [1..<length xs]"

text \<open>
  \<open>partition_func\<close>: the pivot goes to position \<open>a\<close>; \<open>i\<close> moves right over elements less
  than the pivot, \<open>j\<close> moves left over elements not less than it, the elements they stop
  at are exchanged, until the two meet; the pivot then goes to position \<open>j\<close>.
\<close>

function skipLess :: "('a \<Rightarrow> 'a \<Rightarrow> bool) \<Rightarrow> 'a list \<Rightarrow> int \<Rightarrow> int \<Rightarrow> int \<Rightarrow> int" where
  "skipLess lt xs a i j =
     (if i \<le> j \<and> lessAt lt xs i a then skipLess lt xs a (i + 1) j else i)"
  by pat_completeness auto
termination
  by (relation "measure (\<lambda>(lt, xs, a, i, j). nat (j + 1 - i))") auto

function skipNotLess :: "('a \<Rightarrow> 'a \<Rightarrow> bool) \<Rightarrow> 'a list \<Rightarrow> int \<Rightarrow> int \<Rightarrow> int \<Rightarrow> int" where
  "skipNotLess lt xs a i j =
     (if i \<le> j \<and> \<not> lessAt lt xs j a then skipNotLess lt xs a i (j - 1) else j)"
  by pat_completeness auto
termination
  by (relation "measure (\<lambda>(lt, xs, a, i, j). nat (j + 1 - i))") auto

declare insertLast.simps [simp del] skipLess.simps [simp del] skipNotLess.simps [simp del]

function partitionLoop ::
    "('a \<Rightarrow> 'a \<Rightarrow> bool) \<Rightarrow> 'a list \<Rightarrow> int \<Rightarrow> int \<Rightarrow> int \<Rightarrow> 'a list \<times> int" where
  "partitionLoop lt xs a i j =
     (let i = skipLess lt xs a i j; j = skipNotLess lt xs a i j
      in if i > j then (xs, j)
         else partitionLoop lt (swapAt i j xs) a (i + 1) (j - 1))"
  by pat_completeness auto
termination
proof (relation "measure (\<lambda>(lt, xs, a, i, j). nat (j + 1 - i))", goal_cases)
  case 1
  then show ?case by simp
next
  case (2 lt xs a i j i' j')
  have ge: "q \<le> skipLess f zs c q r" for f :: "'a \<Rightarrow> 'a \<Rightarrow> bool" and zs c q r
    by (induction f zs c q r rule: skipLess.induct) (subst skipLess.simps, auto)
  have le: "skipNotLess f zs c q r \<le> r" for f :: "'a \<Rightarrow> 'a \<Rightarrow> bool" and zs c q r
    by (induction f zs c q r rule: skipNotLess.induct) (subst skipNotLess.simps, auto)
  have "i \<le> i'" using 2 ge by metis
  moreover have "j' \<le> j" using 2 le by metis
  ultimately show ?case using 2 by simp
qed

declare partitionLoop.simps [simp del]

definition partition_func ::
    "('a \<Rightarrow> 'a \<Rightarrow> bool) \<Rightarrow> 'a list \<Rightarrow> int \<Rightarrow> int \<Rightarrow> int \<Rightarrow> 'a list \<times> int" where
  "partition_func lt xs0 a b pivot =
     (let xs = swapAt a pivot xs0;
          i = skipLess lt xs a (a + 1) (b - 1);
          j = skipNotLess lt xs a i (b - 1)
      in if i > j then (swapAt j a xs, j)
         else (case partitionLoop lt (swapAt i j xs) a (i + 1) (j - 1) of
                 (ys, m) \<Rightarrow> (swapAt m a ys, m)))"

text \<open>
  \<open>pdqsort_func\<close> on the whole slice, with the result when the first round settles it.
  The pivot choice reports the slice as likely sorted when it made no exchange; the
  two sides of the partition are \<open>data[0:mid]\<close> and \<open>data[mid+1:n]\<close>.
\<close>

definition pdqsort_func :: "('a \<Rightarrow> 'a \<Rightarrow> bool) \<Rightarrow> 'a list \<Rightarrow> 'a list option" where
  "pdqsort_func lt xs =
     (if length xs \<le> 12 then Some (insertionSort_func lt xs)
      else if 50 \<le> length xs then None
      else
        (case choosePivot_func lt xs 0 (int (length xs)) of (pivot, swaps) \<Rightarrow>
           if swaps = 0 \<and> partialInsertionSort_func lt xs then Some xs
           else
             (case partition_func lt xs 0 (int (length xs)) pivot of (ys, mid) \<Rightarrow>
                (let left = take (nat mid) ys; right = drop (nat mid + 1) ys
                 in if length left \<le> 12 \<and> length right \<le> 12
                    then Some (insertionSort_func lt left @ [ys ! nat mid]
                                 @ insertionSort_func lt right)
                    else None))))"

text \<open>
  \<open>sortSlice lt xs ys\<close>: \<open>ys\<close> is what \<open>sort.Slice\<close> leaves of \<open>xs\<close>. Where the first
  round settles the slice this is the result computed above; elsewhere it is any
  result that meets the contract of \<open>sort.Slice\<close>, a rearrangement of the slice in
  which no element is less than an earlier one.
\<close>

definition sortSlice :: "('a \<Rightarrow> 'a \<Rightarrow> bool) \<Rightarrow> 'a list \<Rightarrow> 'a list \<Rightarrow> bool" where
  "sortSlice lt xs ys =
     (case pdqsort_func lt xs of
        Some zs \<Rightarrow> ys = zs
      | None \<Rightarrow> mset ys = mset xs \<and> sorted_wrt (\<lambda>a b. \<not> lt b a) ys)"

text \<open>
  \<open>Analyze unicodeLower fs now target slitherFindings report\<close>: \<open>report\<close> is a report the
  function can return when the clock reads \<open>now\<close>. The function has no path that
  returns an error.
\<close>

definition Analyze ::
    "(string \<Rightarrow> string) \<Rightarrow> filesystem \<Rightarrow> string \<Rightarrow> string \<Rightarrow> Finding list \<Rightarrow> AnalysisReport
       \<Rightarrow> bool" where
  "Analyze unicodeLower fs now target slitherFindings report =
     (sortSlice findingLess
        (deduplicate (collectFindings unicodeLower fs target slitherFindings))
        (Findings report)
      \<and> Target report = target
      \<and> GeneratedAt report = now
      \<and> Summary report = buildSummary (Findings report))"

definition IsNotExist :: "error \<Rightarrow> bool" where
  "IsNotExist err = (err = ErrNotExist)"

definition ValidateTarget :: "filesystem \<Rightarrow> string \<Rightarrow> error option" where
  "ValidateTarget fs target =
     (case stat fs target of
        Inl err \<Rightarrow>
          if IsNotExist err then Some (Errorf (''target not found: '' @ target))
          else Some (Wrapped ''accessing target: '' err)
      | Inr isDir \<Rightarrow>
          if isDir then None
          else if Ext target \<noteq> ''.sol''
          then Some (Errorf (''target must be a .sol file or a directory, got: '' @ target))
          else None)"

text \<open>
  The command \<open>analyze\<close> up to the report: target validation, then the external
  analyzer (its outcome is given: the parsed findings or the error of that stage, no
  findings with \<open>--no-slither\<close>), then \<open>Analyze\<close>.
\<close>

definition runAnalyze ::
    "(string \<Rightarrow> string) \<Rightarrow> filesystem \<Rightarrow> string \<Rightarrow> string \<Rightarrow> error + Finding list
       \<Rightarrow> error + AnalysisReport \<Rightarrow> bool" where
  "runAnalyze unicodeLower fs now target slitherStage outcome =
     (case ValidateTarget fs target of
        Some err \<Rightarrow> outcome = Inl err
      | None \<Rightarrow>
          (case slitherStage of
             Inl err \<Rightarrow> outcome = Inl err
           | Inr slitherFindings \<Rightarrow>
               (case outcome of
                  Inl err \<Rightarrow> False
                | Inr report \<Rightarrow> Analyze unicodeLower fs now target slitherFindings report)))"

section \<open>Notions used in the statements\<close>

text \<open>The zero value of the struct \<open>Finding\<close>.\<close>

definition emptyFinding :: Finding where
  "emptyFinding =
     \<lparr>ID = [], Source = [], Check = [], Title = [], Description = [], Severity = [],
      Confidence = [], File = [], Lines = [], Remediation = [], SWCRef = [],
      References = []\<rparr>"

text \<open>A severity is recognized when it is one of the six constants.\<close>

definition recognized :: "Severity \<Rightarrow> bool" where
  "recognized s = (SeverityRank s < 6)"

definition sixCounts :: "Summary \<Rightarrow> 64 word" where
  "sixCounts s = Critical s + High s + Medium s + Low s + Informational s + Optimization s"

text \<open>The weighted sum of the scoring contract, over the integers.\<close>

definition weightedSum :: "Summary \<Rightarrow> int" where
  "weightedSum s =
     sint (Critical s) * 40 + sint (High s) * 20 + sint (Medium s) * 10 + sint (Low s) * 3"

definition countsInRange :: "Summary \<Rightarrow> bool" where
  "countsInRange s =
     (0 \<le> sint (Critical s) \<and> 0 \<le> sint (High s) \<and> 0 \<le> sint (Medium s)
      \<and> 0 \<le> sint (Low s) \<and> weightedSum s < 2 ^ 63)"

definition reportWithCounts :: "64 word \<Rightarrow> 64 word \<Rightarrow> 64 word \<Rightarrow> 64 word \<Rightarrow> AnalysisReport" where
  "reportWithCounts c h m l =
     \<lparr>Target = [], GeneratedAt = [],
      Summary = \<lparr>Total = c + h + m + l, Critical = c, High = h, Medium = m, Low = l,
                 Informational = 0, Optimization = 0\<rparr>,
      Findings = []\<rparr>"

text \<open>The key of the deduplication contract: reference, file, first line if present.\<close>

definition firstLine :: "Finding \<Rightarrow> int option" where
  "firstLine f = (case Lines f of [] \<Rightarrow> None | l # _ \<Rightarrow> Some l)"

definition keyTriple :: "Finding \<Rightarrow> string \<times> string \<times> int option" where
  "keyTriple f = (SWCRef f, File f, firstLine f)"

definition noBar :: "Finding \<Rightarrow> bool" where
  "noBar f = (CHR ''|'' \<notin> set (SWCRef f) \<and> CHR ''|'' \<notin> set (File f))"

text \<open>Position \<open>i\<close> holds the first finding of its key.\<close>

definition firstOfKey :: "Finding list \<Rightarrow> nat \<Rightarrow> bool" where
  "firstOfKey fs i = (dedupKey (fs ! i) \<notin> dedupKey ` set (take i fs))"

text \<open>Three sample findings: two from the external analyzer, one from a detector.\<close>

definition slitherA :: Finding where
  "slitherA =
     emptyFinding\<lparr>ID := ''SLITHER-001'', Source := ''slither'', Severity := SeverityHigh,
       File := ''a.sol'', Lines := [3, 5], SWCRef := ''SWC-107''\<rparr>"

definition slitherB :: Finding where
  "slitherB =
     emptyFinding\<lparr>ID := ''SLITHER-002'', Source := ''slither'', Severity := SeverityLow,
       File := ''a.sol'', Lines := [4], SWCRef := ''SWC-107''\<rparr>"

definition customA :: Finding where
  "customA =
     emptyFinding\<lparr>ID := ''CUSTOM-REENTRANT-1'', Source := ''custom'', Severity := SeverityHigh,
       File := ''a.sol'', Lines := [3, 9], SWCRef := ''SWC-107''\<rparr>"




definition isClose :: "string \<Rightarrow> bool" where
  "isClose l = (TrimSpace l = ''}'')"

definition isComment :: "string \<Rightarrow> bool" where
  "isComment l = HasPrefix (TrimSpace l) ''//''"

definition isFunctionLine :: "string \<Rightarrow> bool" where
  "isFunctionLine l = isFunctionStart (TrimSpace l)"

definition isGuardLine :: "string \<Rightarrow> bool" where
  "isGuardLine l = isGuardSignal (TrimSpace l)"

definition isCallLine :: "string \<Rightarrow> bool" where
  "isCallLine l = isExternalCall (TrimSpace l)"

definition isChangeLine :: "string \<Rightarrow> bool" where
  "isChangeLine l = isStateChange (TrimSpace l)"

text \<open>
  The reentrancy scanner is outside a function, or has seen a guard in the current one.
\<close>

definition guardedOrOutside :: "ReentrancyScan \<Rightarrow> bool" where
  "guardedOrOutside st = (\<not> inFunction st \<or> hasGuard st)"

text \<open>
  The function segment of a line is the stretch of the file from the last
  function-declaration line at or before it up to the line itself. For a prefix of the
  file, \<open>segmentOf\<close> is the segment of its last line (the whole prefix when it has no
  function-declaration line), and the last line is inside a function when the prefix
  has a function-declaration line and no line of the segment before the last is a bare
  closing brace.
\<close>

fun takeThrough :: "('a \<Rightarrow> bool) \<Rightarrow> 'a list \<Rightarrow> 'a list" where
  "takeThrough P [] = []"
| "takeThrough P (x # xs) = (if P x then [x] else x # takeThrough P xs)"

definition segmentOf :: "string list \<Rightarrow> string list" where
  "segmentOf pfx = rev (takeThrough isFunctionLine (rev pfx))"

definition insideFunction :: "string list \<Rightarrow> bool" where
  "insideFunction pfx =
     (list_ex isFunctionLine pfx \<and> \<not> list_ex isClose (butlast (segmentOf pfx)))"

text \<open>
  For a segment: a call line was seen, a guard line was seen, the position of the last
  call line, and whether the last line is a state-change line with a call line and no
  guard line in the segment.
\<close>

definition callSeen :: "string list \<Rightarrow> bool" where
  "callSeen seg = list_ex isCallLine seg"

definition guardSeen :: "string list \<Rightarrow> bool" where
  "guardSeen seg = list_ex isGuardLine seg"

definition lastCallIndex :: "string list \<Rightarrow> nat" where
  "lastCallIndex seg = last (filter (\<lambda>j. isCallLine (seg ! j)) [0..<length seg])"

definition emitsAt :: "string list \<Rightarrow> bool" where
  "emitsAt seg = (isChangeLine (last seg) \<and> callSeen seg \<and> \<not> guardSeen seg)"

text \<open>
  For a prefix of the file: whether its last line emits a finding, and the number of
  the last call line of its segment. The findings expected of a file, severity and
  lines of each, are those of the emitting lines in order.
\<close>

definition lineEmits :: "string list \<Rightarrow> bool" where
  "lineEmits pfx = (insideFunction pfx \<and> emitsAt (segmentOf pfx))"

definition callLineOf :: "string list \<Rightarrow> int" where
  "callLineOf pfx =
     int (length pfx) - int (length (segmentOf pfx)) + 1 + int (lastCallIndex (segmentOf pfx))"

definition expectedFindings :: "string list \<Rightarrow> (Severity \<times> int list) list" where
  "expectedFindings ls =
     map (\<lambda>i. (SeverityHigh, [callLineOf (take (Suc i) ls), int i + 1]))
       (filter (\<lambda>i. lineEmits (take (Suc i) ls)) [0..<length ls])"

text \<open>What the scanner state \<open>st\<close> holds after the lines \<open>ls\<close> of a file.\<close>

definition fileState :: "string list \<Rightarrow> ReentrancyScan \<Rightarrow> bool" where
  "fileState ls st =
     (lineNum st = int (length ls)
      \<and> inFunction st = (list_ex isFunctionLine ls \<and> \<not> list_ex isClose (segmentOf ls))
      \<and> (inFunction st \<longrightarrow>
            hasGuard st = guardSeen (segmentOf ls)
            \<and> sawExternalCall st = callSeen (segmentOf ls)
            \<and> (callSeen (segmentOf ls) \<longrightarrow> callLine st = callLineOf ls))
      \<and> map (\<lambda>f. (Severity f, Lines f)) (findings st) = expectedFindings ls)"

text \<open>
  Sample files: the contract of the repository's reentrancy test; two calls, a state
  change, a guard in a comment, another state change; a function declared with a
  guard, whose body has a comment that reads like a declaration; an unchecked block
  whose opening line carries a comment.
\<close>

definition vulnerableContract :: "string list" where
  "vulnerableContract =
     [[], ''package main'', [], ''contract Vulnerable {'',
      ''    mapping(address => uint256) public balances;'', [],
      ''    function withdraw() public {'',
      ''        uint256 amount = balances[msg.sender];'',
      ''        require(amount > 0);'', [],
      ''        (bool success, ) = msg.sender.call{value: amount}();'',
      ''        require(success);'', [],
      ''        balances[msg.sender] = 0;'',
      ''    }'', ''}'']"

definition guardedThenComment :: "string list" where
  "guardedThenComment =
     [''function withdraw() public nonReentrant {'',
      ''    // call the function (unsafe)'',
      ''    msg.sender.call{value: amount}();'',
      ''    balances[msg.sender] = 0;'',
      ''}'']"


definition twoCallsThenGuard :: "string list" where
  "twoCallsThenGuard =
     [''function f() public {'',
      ''    a.call(x);'',
      ''    b.call(y);'',
      ''    balances[a] = 0;'',
      ''    // nonReentrant'',
      ''    balances[b] = 0;'']"

text \<open>
  The sort key of a finding; the report with given findings; a target that does not
  exist; existing regular files that cannot be opened; a file of two harmless lines.
\<close>

definition sortKey :: "Finding \<Rightarrow> int \<times> string" where
  "sortKey f = (SeverityRank (Severity f), File f)"

definition reportOf :: "string \<Rightarrow> string \<Rightarrow> Finding list \<Rightarrow> AnalysisReport" where
  "reportOf target now fnd =
     \<lparr>Target = target, GeneratedAt = now, Summary = buildSummary fnd, Findings = fnd\<rparr>"

definition fsMissing :: filesystem where
  "fsMissing = \<lparr>stat = (\<lambda>_. Inl ErrNotExist), walk = (\<lambda>_. []),
     openFile = (\<lambda>_. Inl ErrNotExist)\<rparr>"

definition fsUnreadable :: filesystem where
  "fsUnreadable = \<lparr>stat = (\<lambda>_. Inr False), walk = (\<lambda>_. []),
     openFile = (\<lambda>_. Inl ErrPermission)\<rparr>"

definition fsPlain :: filesystem where
  "fsPlain = \<lparr>stat = (\<lambda>_. Inr False), walk = (\<lambda>_. []),
     openFile = (\<lambda>_. Inr ([''contract C {'', ''}''], None))\<rparr>"

text \<open>
  More sample findings of the external analyzer: a third one with the severity and file
  of the first, and a list of thirteen with distinct lines, twelve of severity High in
  one file and then one of severity Critical in the same file.
\<close>

definition slitherC :: Finding where
  "slitherC = slitherA\<lparr>ID := ''SLITHER-003'', Lines := [8]\<rparr>"

definition slitherAt :: "Severity \<Rightarrow> int \<Rightarrow> Finding" where
  "slitherAt sev n =
     emptyFinding\<lparr>ID := ''SLITHER-'' @ itoa n, Source := ''slither'', Severity := sev,
       File := ''a.sol'', Lines := [n], SWCRef := ''SWC-107''\<rparr>"

definition thirteenFindings :: "Finding list" where
  "thirteenFindings =
     map (slitherAt SeverityHigh) [1, 2, 3, 4, 5, 6, 7, 8, 9, 10, 11, 12]
     @ [slitherAt SeverityCritical 13]"

text \<open>
  The invariant of the partitioning loop of \<open>partition_func\<close> on a whole slice: the
  pivot \<open>p\<close> is first, the elements before position \<open>i\<close> are less than it, and the
  elements after position \<open>j\<close> are not.
\<close>

definition partInv :: "('a \<Rightarrow> 'a \<Rightarrow> bool) \<Rightarrow> 'a \<Rightarrow> 'a list \<Rightarrow> int \<Rightarrow> int \<Rightarrow> bool" where
  "partInv lt p xs i j \<longleftrightarrow>
     xs \<noteq> [] \<and> xs ! 0 = p \<and> 1 \<le> i \<and> i \<le> j + 1 \<and> j < int (length xs)
     \<and> (\<forall>k. 1 \<le> k \<and> k < i \<longrightarrow> lt (xs ! nat k) p)
     \<and> (\<forall>k. j < k \<and> k < int (length xs) \<longrightarrow> \<not> lt (xs ! nat k) p)"

section \<open>The summary\<close>

lemma recognized_iff:
  "recognized s \<longleftrightarrow>
     s = SeverityCritical \<or> s = SeverityHigh \<or> s = SeverityMedium \<or> s = SeverityLow
     \<or> s = SeverityInformational \<or> s = SeverityOptimization"
  by (simp add: recognized_def SeverityRank_def)

lemma summaryStep_Total: "Total (summaryStep s f) = Total s"
  by (simp add: summaryStep_def)

lemma summaryStep_six:
  "sixCounts (summaryStep s f) = sixCounts s + (if recognized (Severity f) then 1 else 0)"
  by (simp add: summaryStep_def sixCounts_def recognized_iff)

lemma foldl_summaryStep_Total: "Total (foldl summaryStep s fs) = Total s"
  by (induction fs arbitrary: s) (simp_all add: summaryStep_Total)

lemma foldl_summaryStep_six:
  "sixCounts (foldl summaryStep s fs) =
     sixCounts s + of_nat (length (filter (\<lambda>f. recognized (Severity f)) fs))"
  by (induction fs arbitrary: s) (simp_all add: summaryStep_six)

lemma buildSummary_Total: "Total (buildSummary fs) = of_nat (length fs)"
  by (simp add: buildSummary_def foldl_summaryStep_Total)

lemma buildSummary_six:
  "sixCounts (buildSummary fs) = of_nat (length (filter (\<lambda>f. recognized (Severity f)) fs))"
  by (simp add: buildSummary_def foldl_summaryStep_six) (simp add: sixCounts_def)

lemma buildSummary_unrecognized:
  "Total (buildSummary fs) =
     sixCounts (buildSummary fs)
       + of_nat (length (filter (\<lambda>f. \<not> recognized (Severity f)) fs))"
proof -
  have "length fs = length (filter (\<lambda>f. recognized (Severity f)) fs)
      + length (filter (\<lambda>f. \<not> recognized (Severity f)) fs)"
    by (simp add: sum_length_filter_compl)
  then have "(of_nat (length fs) :: 64 word) =
      of_nat (length (filter (\<lambda>f. recognized (Severity f)) fs))
      + of_nat (length (filter (\<lambda>f. \<not> recognized (Severity f)) fs))"
    by (metis of_nat_add)
  then show ?thesis
    by (simp only: buildSummary_Total buildSummary_six)
qed

text \<open>
  C2, as the code has it. The total is the number of findings; it equals the sum of the
  six severity counts plus the number of findings whose severity is none of the six
  constants. So the total equals the sum of the six counts whenever every finding
  carries one of the six severities, the empty sequence included.
\<close>

theorem buildSummary_total_is_sum_plus_unrecognized:
  "Total (buildSummary fs) = of_nat (length fs)
   \<and> Total (buildSummary fs) =
       Critical (buildSummary fs) + High (buildSummary fs) + Medium (buildSummary fs)
       + Low (buildSummary fs) + Informational (buildSummary fs)
       + Optimization (buildSummary fs)
       + of_nat (length (filter (\<lambda>f. \<not> recognized (Severity f)) fs))
   \<and> ((\<forall>f \<in> set fs. recognized (Severity f)) \<longrightarrow>
        Total (buildSummary fs) =
          Critical (buildSummary fs) + High (buildSummary fs) + Medium (buildSummary fs)
          + Low (buildSummary fs) + Informational (buildSummary fs)
          + Optimization (buildSummary fs))"
proof -
  have all: "(\<forall>f \<in> set fs. recognized (Severity f)) \<Longrightarrow>
      filter (\<lambda>f. \<not> recognized (Severity f)) fs = []"
    by (simp add: filter_empty_conv)
  show ?thesis
    using buildSummary_unrecognized [of fs] all
    by (auto simp: buildSummary_Total sixCounts_def)
qed

theorem buildSummary_total_is_sum_witness:
  "recognized (Severity (emptyFinding\<lparr>Severity := SeverityHigh\<rparr>))
   \<and> recognized (Severity (emptyFinding\<lparr>Severity := SeverityLow\<rparr>))
   \<and> Total (buildSummary [emptyFinding\<lparr>Severity := SeverityHigh\<rparr>,
        emptyFinding\<lparr>Severity := SeverityLow\<rparr>, emptyFinding\<lparr>Severity := SeverityHigh\<rparr>]) = 3
   \<and> High (buildSummary [emptyFinding\<lparr>Severity := SeverityHigh\<rparr>,
        emptyFinding\<lparr>Severity := SeverityLow\<rparr>, emptyFinding\<lparr>Severity := SeverityHigh\<rparr>]) = 2
   \<and> Low (buildSummary [emptyFinding\<lparr>Severity := SeverityHigh\<rparr>,
        emptyFinding\<lparr>Severity := SeverityLow\<rparr>, emptyFinding\<lparr>Severity := SeverityHigh\<rparr>]) = 1
   \<and> Total (buildSummary []) = 0"
  using buildSummary_total_is_sum_plus_unrecognized
    [of "[emptyFinding\<lparr>Severity := SeverityHigh\<rparr>, emptyFinding\<lparr>Severity := SeverityLow\<rparr>,
          emptyFinding\<lparr>Severity := SeverityHigh\<rparr>]"]
  by (simp add: recognized_iff buildSummary_def summaryStep_def SeverityCritical_def
      SeverityHigh_def SeverityMedium_def SeverityLow_def SeverityInformational_def
      SeverityOptimization_def)

text \<open>
  C2 as stated fails: a finding whose severity is the empty string (a missing severity)
  is counted in the total and in none of the six buckets.
\<close>

theorem buildSummary_total_counterexample:
  "Total (buildSummary [emptyFinding]) = 1
   \<and> Critical (buildSummary [emptyFinding]) + High (buildSummary [emptyFinding])
     + Medium (buildSummary [emptyFinding]) + Low (buildSummary [emptyFinding])
     + Informational (buildSummary [emptyFinding])
     + Optimization (buildSummary [emptyFinding]) = 0"
  by (simp add: buildSummary_def summaryStep_def emptyFinding_def SeverityCritical_def
      SeverityHigh_def SeverityMedium_def SeverityLow_def SeverityInformational_def
      SeverityOptimization_def)

section \<open>The score\<close>

lemma score_word:
  "(0::64 word) + Critical s * 40 + High s * 20 + Medium s * 10 + Low s * 3 =
     word_of_int (weightedSum s)"
  by (simp add: weightedSum_def)

lemma sint_score_word:
  assumes "countsInRange s"
  shows "sint ((0::64 word) + Critical s * 40 + High s * 20 + Medium s * 10 + Low s * 3) =
           weightedSum s"
proof -
  have lo: "- (2 ^ 63) \<le> weightedSum s" and hi: "weightedSum s < 2 ^ 63"
    using assms by (simp_all add: countsInRange_def weightedSum_def)
  have "sint (word_of_int (weightedSum s) :: 64 word) = signed_take_bit 63 (weightedSum s)"
    by (simp add: sint_sbintrunc')
  also have "\<dots> = weightedSum s"
    using lo hi by (simp add: signed_take_bit_int_eq_self)
  finally show ?thesis by (simp only: score_word)
qed

lemma Score_in_range:
  assumes "countsInRange (Summary r)"
  shows "sint (Score r) = min 100 (weightedSum (Summary r))"
  using sint_score_word [OF assms]
  by (simp add: Score_def Let_def word_sless_alt min_def)

lemma weightedSum_nonneg: "countsInRange s \<Longrightarrow> 0 \<le> weightedSum s"
  by (simp add: countsInRange_def weightedSum_def)

text \<open>
  C5, as the code has it. For non-negative counts whose weighted sum stays below
  \<open>2^63\<close>, the score is the weighted sum clamped at 100, lies between 0 and 100, and
  does not decrease when counts grow (any of them, the other fields being free).
\<close>

theorem Score_weighted_clamped_monotone:
  assumes "countsInRange (Summary r)" and "countsInRange (Summary r')"
    and "sint (Critical (Summary r)) \<le> sint (Critical (Summary r'))"
    and "sint (High (Summary r)) \<le> sint (High (Summary r'))"
    and "sint (Medium (Summary r)) \<le> sint (Medium (Summary r'))"
    and "sint (Low (Summary r)) \<le> sint (Low (Summary r'))"
  shows "sint (Score r) = min 100 (weightedSum (Summary r))
       \<and> 0 \<le> sint (Score r) \<and> sint (Score r) \<le> 100
       \<and> sint (Score r) \<le> sint (Score r')"
proof -
  have "weightedSum (Summary r) \<le> weightedSum (Summary r')"
    using assms(3-6) by (simp add: weightedSum_def)
  then show ?thesis
    using Score_in_range [OF assms(1)] Score_in_range [OF assms(2)]
      weightedSum_nonneg [OF assms(1)]
    by simp
qed

theorem Score_weighted_clamped_monotone_witness:
  "countsInRange (Summary (reportWithCounts 2 0 1 1))
   \<and> countsInRange (Summary (reportWithCounts 3 0 1 1))
   \<and> sint (Score (reportWithCounts 2 0 1 1)) = 93
   \<and> sint (Score (reportWithCounts 3 0 1 1)) = 100
   \<and> sint (Score (reportWithCounts 2 0 1 1)) \<le> sint (Score (reportWithCounts 3 0 1 1))
   \<and> sint (Score (reportWithCounts 10 0 0 0)) = 100"
proof -
  have a: "countsInRange (Summary (reportWithCounts 2 0 1 1))"
    by (simp add: countsInRange_def weightedSum_def reportWithCounts_def)
  have b: "countsInRange (Summary (reportWithCounts 3 0 1 1))"
    by (simp add: countsInRange_def weightedSum_def reportWithCounts_def)
  have c: "countsInRange (Summary (reportWithCounts 10 0 0 0))"
    by (simp add: countsInRange_def weightedSum_def reportWithCounts_def)
  have w2: "weightedSum (Summary (reportWithCounts 2 0 1 1)) = 93"
    by (simp add: weightedSum_def reportWithCounts_def)
  have w3: "weightedSum (Summary (reportWithCounts 3 0 1 1)) = 133"
    by (simp add: weightedSum_def reportWithCounts_def)
  have w10: "weightedSum (Summary (reportWithCounts 10 0 0 0)) = 400"
    by (simp add: weightedSum_def reportWithCounts_def)
  have le: "sint (Critical (Summary (reportWithCounts 2 0 1 1)))
      \<le> sint (Critical (Summary (reportWithCounts 3 0 1 1)))"
    by (simp add: reportWithCounts_def)
  have eq: "sint (High (Summary (reportWithCounts 2 0 1 1)))
        \<le> sint (High (Summary (reportWithCounts 3 0 1 1)))"
      "sint (Medium (Summary (reportWithCounts 2 0 1 1)))
        \<le> sint (Medium (Summary (reportWithCounts 3 0 1 1)))"
      "sint (Low (Summary (reportWithCounts 2 0 1 1)))
        \<le> sint (Low (Summary (reportWithCounts 3 0 1 1)))"
    by (simp_all add: reportWithCounts_def)
  have cc: "sint (Critical (Summary (reportWithCounts 10 0 0 0)))
        \<le> sint (Critical (Summary (reportWithCounts 10 0 0 0)))"
      "sint (High (Summary (reportWithCounts 10 0 0 0)))
        \<le> sint (High (Summary (reportWithCounts 10 0 0 0)))"
      "sint (Medium (Summary (reportWithCounts 10 0 0 0)))
        \<le> sint (Medium (Summary (reportWithCounts 10 0 0 0)))"
      "sint (Low (Summary (reportWithCounts 10 0 0 0)))
        \<le> sint (Low (Summary (reportWithCounts 10 0 0 0)))"
    by simp_all
  show ?thesis
    using Score_weighted_clamped_monotone [OF a b le eq]
      Score_weighted_clamped_monotone [OF b b]
      Score_weighted_clamped_monotone [OF c c cc]
    by (simp add: a b w2 w3 w10)
qed

text \<open>
  C5 as stated fails for large counts, where the 64-bit sum wraps: with \<open>2^62\<close>
  critical findings the score is 0, below the score of a single critical finding and
  different from the clamped weighted sum, which is 100.
\<close>

theorem Score_wraps_counterexample:
  "0 \<le> sint (2 ^ 62 :: 64 word)
   \<and> sint (1 :: 64 word) \<le> sint (2 ^ 62 :: 64 word)
   \<and> sint (Score (reportWithCounts 1 0 0 0)) = 40
   \<and> sint (Score (reportWithCounts (2 ^ 62) 0 0 0)) = 0
   \<and> min 100 (weightedSum (Summary (reportWithCounts (2 ^ 62) 0 0 0))) = 100"
  by (simp add: Score_def reportWithCounts_def weightedSum_def word_sless_alt)

section \<open>Deduplication\<close>

declare digitsOf.simps [simp del]

lemma dedupLoop_snoc:
  "dedupLoop seen result (fs @ [f]) =
     dedupLoop seen result fs @
       (if seen (dedupKey f) \<or> dedupKey f \<in> dedupKey ` set fs then [] else [f])"
proof (induction fs arbitrary: seen result)
  case Nil
  show ?case by (simp add: Let_def)
next
  case (Cons a fs)
  show ?case
  proof (cases "seen (dedupKey a)")
    case True
    have "dedupLoop seen result ((a # fs) @ [f]) = dedupLoop seen result (fs @ [f])"
      using True by (simp add: Let_def)
    also have "\<dots> = dedupLoop seen result fs @
        (if seen (dedupKey f) \<or> dedupKey f \<in> dedupKey ` set fs then [] else [f])"
      by (rule Cons.IH)
    also have "dedupLoop seen result fs = dedupLoop seen result (a # fs)"
      using True by (simp add: Let_def)
    finally show ?thesis using True by auto
  next
    case False
    let ?seen = "seen(dedupKey a := True)"
    have "dedupLoop seen result ((a # fs) @ [f]) = dedupLoop ?seen (result @ [a]) (fs @ [f])"
      using False by (simp add: Let_def)
    also have "\<dots> = dedupLoop ?seen (result @ [a]) fs @
        (if ?seen (dedupKey f) \<or> dedupKey f \<in> dedupKey ` set fs then [] else [f])"
      by (rule Cons.IH)
    also have "dedupLoop ?seen (result @ [a]) fs = dedupLoop seen result (a # fs)"
      using False by (simp add: Let_def)
    finally show ?thesis by auto
  qed
qed

lemma deduplicate_Nil: "deduplicate [] = []"
  by (simp add: deduplicate_def)

lemma deduplicate_snoc:
  "deduplicate (fs @ [f]) =
     deduplicate fs @ (if dedupKey f \<in> dedupKey ` set fs then [] else [f])"
  by (simp add: deduplicate_def dedupLoop_snoc)

lemma deduplicate_first_occurrences:
  "deduplicate fs = map (nth fs) (filter (firstOfKey fs) [0..<length fs])"
proof (induction fs rule: rev_induct)
  case Nil
  show ?case by (simp add: deduplicate_Nil)
next
  case (snoc f fs)
  have eq: "\<And>i. i < length fs \<Longrightarrow> firstOfKey (fs @ [f]) i = firstOfKey fs i"
    by (simp add: firstOfKey_def nth_append)
  have f1: "filter (firstOfKey (fs @ [f])) [0..<length fs] = filter (firstOfKey fs) [0..<length fs]"
    by (rule filter_cong) (simp_all add: eq)
  have m1: "map (nth (fs @ [f])) (filter (firstOfKey fs) [0..<length fs])
          = map (nth fs) (filter (firstOfKey fs) [0..<length fs])"
    by (rule map_cong) (auto simp: nth_append)
  have last: "firstOfKey (fs @ [f]) (length fs) = (dedupKey f \<notin> dedupKey ` set fs)"
    by (simp add: firstOfKey_def)
  show ?case
    by (simp add: deduplicate_snoc snoc.IH f1 m1 last)
qed

lemma set_deduplicate_subset: "set (deduplicate fs) \<subseteq> set fs"
  by (induction fs rule: rev_induct) (auto simp: deduplicate_Nil deduplicate_snoc)

lemma keys_deduplicate: "dedupKey ` set (deduplicate fs) = dedupKey ` set fs"
  by (induction fs rule: rev_induct) (auto simp: deduplicate_Nil deduplicate_snoc)

lemma distinct_keys_deduplicate: "distinct (map dedupKey (deduplicate fs))"
proof (induction fs rule: rev_induct)
  case Nil
  show ?case by (simp add: deduplicate_Nil)
next
  case (snoc f fs)
  then show ?case
    using keys_deduplicate [of fs] by (auto simp: deduplicate_snoc)
qed

lemma deduplicate_distinct_keys_id:
  "distinct (map dedupKey fs) \<Longrightarrow> deduplicate fs = fs"
proof (induction fs rule: rev_induct)
  case Nil
  show ?case by (simp add: deduplicate_Nil)
next
  case (snoc f fs)
  then show ?case by (auto simp: deduplicate_snoc)
qed

lemma deduplicate_idem: "deduplicate (deduplicate fs) = deduplicate fs"
  by (rule deduplicate_distinct_keys_id) (rule distinct_keys_deduplicate)

lemma digitChar_inj: "a < 10 \<Longrightarrow> b < 10 \<Longrightarrow> digitChar a = digitChar b \<Longrightarrow> a = b"
  by (simp add: digitChar_def)

lemma of_char_digitChar: "d < 10 \<Longrightarrow> of_char (digitChar d) = 48 + d"
  by (simp add: digitChar_def)

lemma digitChar_not_bar: "d < 10 \<Longrightarrow> digitChar d \<noteq> CHR ''|'' \<and> digitChar d \<noteq> CHR ''-''"
proof -
  assume d: "d < 10"
  have "of_char (digitChar d) \<noteq> (of_char (CHR ''|'') :: nat)"
    using d by (simp add: of_char_digitChar)
  moreover have "of_char (digitChar d) \<noteq> (of_char (CHR ''-'') :: nat)"
    using d by (simp add: of_char_digitChar)
  ultimately show ?thesis by auto
qed

lemma digitsOf_chars: "c \<in> set (digitsOf n) \<Longrightarrow> c \<noteq> CHR ''|'' \<and> c \<noteq> CHR ''-''"
proof (induction n rule: digitsOf.induct)
  case (1 n)
  show ?case
  proof (cases "n < 10")
    case True
    then show ?thesis using "1.prems" digitChar_not_bar [of n]
      by (simp add: digitsOf.simps [of n])
  next
    case False
    have "n mod 10 < 10" by simp
    then show ?thesis using "1.prems" "1.IH" False digitChar_not_bar [of "n mod 10"]
      by (auto simp: digitsOf.simps [of n])
  qed
qed

lemma digitsOf_nonempty: "digitsOf n \<noteq> []"
  by (subst digitsOf.simps) simp

lemma digitsOf_length: "10 \<le> n \<Longrightarrow> 2 \<le> length (digitsOf n)"
  using digitsOf_nonempty [of "n div 10"]
  by (subst digitsOf.simps) (cases "digitsOf (n div 10)", simp_all)

lemma digitsOf_inj: "digitsOf n = digitsOf m \<Longrightarrow> n = m"
proof (induction n arbitrary: m rule: digitsOf.induct)
  case (1 n)
  show ?case
  proof (cases "n < 10")
    case n: True
    show ?thesis
    proof (cases "m < 10")
      case True
      then show ?thesis using "1.prems" n digitChar_inj [of n m]
        by (simp add: digitsOf.simps [of n] digitsOf.simps [of m])
    next
      case False
      then have "2 \<le> length (digitsOf m)" by (simp add: digitsOf_length)
      moreover have "length (digitsOf n) = 1" using n by (simp add: digitsOf.simps [of n])
      ultimately show ?thesis using "1.prems" by simp
    qed
  next
    case n: False
    show ?thesis
    proof (cases "m < 10")
      case True
      then have "length (digitsOf m) = 1" by (simp add: digitsOf.simps [of m])
      moreover have "2 \<le> length (digitsOf n)" using n by (simp add: digitsOf_length)
      ultimately show ?thesis using "1.prems" by simp
    next
      case False
      have "digitsOf (n div 10) @ [digitChar (n mod 10)] = digitsOf (m div 10) @ [digitChar (m mod 10)]"
        using "1.prems" n False by (simp add: digitsOf.simps [of n] digitsOf.simps [of m])
      then have a: "digitsOf (n div 10) = digitsOf (m div 10)"
        and b: "digitChar (n mod 10) = digitChar (m mod 10)" by simp_all
      have "n div 10 = m div 10" using "1.IH" [OF n a] .
      moreover have "n mod 10 = m mod 10" using b digitChar_inj [of "n mod 10" "m mod 10"] by simp
      ultimately show ?thesis by (metis div_mult_mod_eq)
    qed
  qed
qed

lemma itoa_chars: "CHR ''|'' \<notin> set (itoa i)"
  using digitsOf_chars by (auto simp: itoa_def)

lemma itoa_inj: "itoa i = itoa j \<Longrightarrow> i = j"
proof -
  assume eq: "itoa i = itoa j"
  have hdne: "\<And>n. hd (digitsOf n) \<noteq> CHR ''-''"
    using digitsOf_chars digitsOf_nonempty by (metis hd_in_set)
  have cons: "\<And>n k. CHR ''-'' # digitsOf n \<noteq> digitsOf k"
    using hdne by (metis list.sel(1))
  show ?thesis
  proof (cases "i < 0")
    case i: True
    show ?thesis
    proof (cases "j < 0")
      case True
      then have "digitsOf (nat (- i)) = digitsOf (nat (- j))" using eq i by (simp add: itoa_def)
      then have "nat (- i) = nat (- j)" by (rule digitsOf_inj)
      then show ?thesis using i True by simp
    next
      case False
      then show ?thesis using eq i cons [of "nat (- i)" "nat j"] by (simp add: itoa_def)
    qed
  next
    case i: False
    show ?thesis
    proof (cases "j < 0")
      case True
      then show ?thesis using eq i cons [of "nat (- j)" "nat i"] by (simp add: itoa_def)
    next
      case False
      then have "digitsOf (nat i) = digitsOf (nat j)" using eq i by (simp add: itoa_def)
      then have "nat i = nat j" by (rule digitsOf_inj)
      then show ?thesis using i False by simp
    qed
  qed
qed

lemma append_sep_eq_iff:
  "c \<notin> set a \<Longrightarrow> c \<notin> set b \<Longrightarrow> (a @ c # r = b @ c # s) = (a = b \<and> r = s)"
proof (induction a arbitrary: b)
  case Nil
  then show ?case by (cases b) auto
next
  case (Cons x a)
  then show ?case by (cases b) auto
qed

lemma dedupKey_eq_iff:
  assumes "noBar f" and "noBar g"
  shows "dedupKey f = dedupKey g \<longleftrightarrow>
         keyTriple f = keyTriple g"
proof -
  let ?sf = "case Lines f of [] \<Rightarrow> [] | l # _ \<Rightarrow> CHR ''|'' # itoa l"
  let ?sg = "case Lines g of [] \<Rightarrow> [] | l # _ \<Rightarrow> CHR ''|'' # itoa l"
  have kf: "dedupKey f = SWCRef f @ CHR ''|'' # (File f @ ?sf)"
    by (simp add: dedupKey_def split: list.split)
  have kg: "dedupKey g = SWCRef g @ CHR ''|'' # (File g @ ?sg)"
    by (simp add: dedupKey_def split: list.split)
  have step1: "dedupKey f = dedupKey g \<longleftrightarrow> SWCRef f = SWCRef g \<and> File f @ ?sf = File g @ ?sg"
    unfolding kf kg
    using assms append_sep_eq_iff [of "CHR ''|''" "SWCRef f" "SWCRef g" "File f @ ?sf" "File g @ ?sg"]
    by (simp add: noBar_def)
  have step2: "File f @ ?sf = File g @ ?sg \<longleftrightarrow> File f = File g \<and> firstLine f = firstLine g"
  proof (cases "Lines f")
    case Nil
    show ?thesis
    proof (cases "Lines g")
      case Nil
      then show ?thesis using \<open>Lines f = []\<close> by (simp add: firstLine_def)
    next
      case (Cons l ls)
      have "CHR ''|'' \<in> set (File g @ CHR ''|'' # itoa l)" by simp
      then have "File f \<noteq> File g @ CHR ''|'' # itoa l"
        using assms(1) unfolding noBar_def by metis
      then show ?thesis using \<open>Lines f = []\<close> Cons by (simp add: firstLine_def)
    qed
  next
    case (Cons l ls)
    show ?thesis
    proof (cases "Lines g")
      case Nil
      have "CHR ''|'' \<in> set (File f @ CHR ''|'' # itoa l)" by simp
      then have "File f @ CHR ''|'' # itoa l \<noteq> File g"
        using assms(2) unfolding noBar_def by metis
      then show ?thesis using \<open>Lines f = l # ls\<close> Nil by (simp add: firstLine_def)
    next
      case g: (Cons l' ls')
      have "File f @ CHR ''|'' # itoa l = File g @ CHR ''|'' # itoa l' \<longleftrightarrow>
              File f = File g \<and> itoa l = itoa l'"
        using assms append_sep_eq_iff [of "CHR ''|''" "File f" "File g" "itoa l" "itoa l'"]
        by (simp add: noBar_def)
      then show ?thesis using Cons g itoa_inj [of l l'] by (auto simp: firstLine_def)
    qed
  qed
  show ?thesis using step1 step2 by (simp add: keyTriple_def)
qed

text \<open>
  C4, as the code has it. Deduplication keeps, in order, exactly the findings that are
  the first of their key string \<open>reference|file\<close> or \<open>reference|file|line\<close>; the keys
  of the result are distinct, and deduplicating again changes nothing. The key string
  stands for the triple (reference, file, first line if present) whenever neither the
  reference nor the file contains the separator \<open>|\<close>.
\<close>

theorem deduplicate_keeps_first_of_each_key:
  "deduplicate fs = map (nth fs) (filter (firstOfKey fs) [0..<length fs])
   \<and> distinct (map dedupKey (deduplicate fs))
   \<and> deduplicate (deduplicate fs) = deduplicate fs
   \<and> (noBar f \<and> noBar g \<longrightarrow> (dedupKey f = dedupKey g \<longleftrightarrow> keyTriple f = keyTriple g))"
  using deduplicate_first_occurrences [of fs] distinct_keys_deduplicate [of fs]
    deduplicate_idem [of fs] dedupKey_eq_iff [of f g]
  by blast

theorem deduplicate_keeps_first_witness:
  "noBar slitherA \<and> noBar customA \<and> noBar slitherB
   \<and> dedupKey slitherA = ''SWC-107|a.sol|3''
   \<and> dedupKey customA = dedupKey slitherA
   \<and> keyTriple customA = keyTriple slitherA
   \<and> dedupKey slitherB \<noteq> dedupKey slitherA
   \<and> deduplicate [slitherA, slitherB, customA] = [slitherA, slitherB]
   \<and> deduplicate [slitherA, slitherB] = [slitherA, slitherB]"
proof -
  have n: "noBar slitherA" "noBar customA" "noBar slitherB"
    by (simp_all add: noBar_def slitherA_def customA_def slitherB_def emptyFinding_def)
  have k: "dedupKey slitherA = ''SWC-107|a.sol|3''" "dedupKey customA = ''SWC-107|a.sol|3''"
     "dedupKey slitherB = ''SWC-107|a.sol|4''"
    by code_simp+
  have d: "deduplicate [slitherA, slitherB, customA] = [slitherA, slitherB]"
    by (simp add: deduplicate_def k)
  note t = deduplicate_keeps_first_of_each_key
    [of "[slitherA, slitherB, customA]" customA slitherA]
  have idem: "deduplicate (deduplicate [slitherA, slitherB, customA])
      = deduplicate [slitherA, slitherB, customA]"
    using t by (elim conjE)
  have tr: "keyTriple customA = keyTriple slitherA"
    using t n k by (elim conjE) simp
  have i2: "deduplicate [slitherA, slitherB] = [slitherA, slitherB]"
    using idem by (simp only: d)
  show ?thesis
    using n tr i2 d by (simp add: k)
qed

text \<open>
  C4 as stated fails where the separator occurs in a field: a finding on the file
  \<open>a.sol|7\<close> without lines and a finding on the file \<open>a.sol\<close> at line 7 have
  different triples and the same key string, and the second is discarded.
\<close>

theorem deduplicate_key_counterexample:
  "keyTriple (emptyFinding\<lparr>File := ''a.sol|7''\<rparr>)
     \<noteq> keyTriple (emptyFinding\<lparr>File := ''a.sol'', Lines := [7]\<rparr>)
   \<and> deduplicate [emptyFinding\<lparr>File := ''a.sol|7''\<rparr>,
        emptyFinding\<lparr>File := ''a.sol'', Lines := [7]\<rparr>]
       = [emptyFinding\<lparr>File := ''a.sol|7''\<rparr>]"
proof -
  have k: "dedupKey (emptyFinding\<lparr>File := ''a.sol|7''\<rparr>) = ''|a.sol|7''"
     "dedupKey (emptyFinding\<lparr>File := ''a.sol'', Lines := [7]\<rparr>) = ''|a.sol|7''"
    by code_simp+
  show ?thesis
    by (simp add: deduplicate_def k) (simp add: keyTriple_def emptyFinding_def)
qed

section \<open>The access-control detector\<close>

lemma toLowerChar_not_upper: "\<not> (CHR ''A'' \<le> toLowerChar c \<and> toLowerChar c \<le> CHR ''Z'')"
proof (cases "CHR ''A'' \<le> c \<and> c \<le> CHR ''Z''")
  case True
  then have r: "65 \<le> (of_char c :: nat)" "(of_char c :: nat) \<le> 90"
    by (simp_all add: less_eq_char_def)
  then have "(of_char (toLowerChar c) :: nat) = of_char c + 32"
    using True by (simp add: toLowerChar_def)
  then have "\<not> (of_char (toLowerChar c) :: nat) \<le> 90" using r by simp
  then show ?thesis by (simp add: less_eq_char_def)
next
  case False
  then have "toLowerChar c = c" unfolding toLowerChar_def by (rule if_not_P)
  then show ?thesis using False by metis
qed

lemma ToLower_no_upper:
  "isASCII s \<Longrightarrow> c \<in> set (ToLower u s) \<Longrightarrow> \<not> (CHR ''A'' \<le> c \<and> c \<le> CHR ''Z'')"
  using toLowerChar_not_upper by (auto simp: ToLower_def)

text \<open>On a line of ASCII text the test for a capital after the keyword never succeeds.\<close>

lemma containsFunctionNamed_paren_only:
  assumes "isASCII line"
  shows "containsFunctionNamed u line keyword \<longleftrightarrow>
     0 \<le> Index (ToLower u line) (''function '' @ keyword)
     \<and> HasPrefix (drop (nat (Index (ToLower u line) (''function '' @ keyword) + 9
           + int (length keyword))) (ToLower u line)) ''(''"
proof -
  let ?after = "drop (nat (Index (ToLower u line) (''function '' @ keyword) + 9
           + int (length keyword))) (ToLower u line)"
  have "length ?after > 0 \<Longrightarrow> \<not> (CHR ''A'' \<le> hd ?after \<and> hd ?after \<le> CHR ''Z'')"
  proof -
    assume "length ?after > 0"
    then have "hd ?after \<in> set ?after" by simp
    then have "hd ?after \<in> set (ToLower u line)" by (meson in_set_dropD)
    then show ?thesis using assms ToLower_no_upper by blast
  qed
  then show ?thesis
    by (auto simp: containsFunctionNamed_def Let_def)
qed

text \<open>
  C6 on the code. A declaration whose name continues a sensitive keyword in camelCase is
  not flagged, and neither is an exact match of a keyword that has a capital letter:
  \<open>containsFunctionNamed\<close> lower-cases the line before it looks for the keyword and
  for the capital that would follow it. A bare \<open>mint\<close> is flagged. The lines are ASCII
  text, so this holds whatever the Unicode case mapping is.
\<close>

theorem accessScan_camelCase_not_flagged:
  "accessScan unicodeLower ''t.sol''
       [''function mintTokens(address to, uint256 amount) public {''] = []
   \<and> accessScan unicodeLower ''t.sol'' [''function setOwner(address o) public {''] = []
   \<and> map (\<lambda>f. (Severity f, Title f, Lines f))
         (accessScan unicodeLower ''t.sol''
            [''function mint(address to, uint256 amount) public {''])
       = [(SeverityCritical, ''Missing Access Control on mint()'', [1])]"
  by code_simp

section \<open>The integer-overflow detector\<close>

text \<open>
  C7 on the code. Without a pragma line the version stays at the zero values of the two
  variables, which is below the threshold, and an arithmetic line is flagged High; a
  pragma that cannot be parsed gives the default \<open>(0, 8)\<close> and no finding.
\<close>

theorem overflowScan_no_pragma_flagged:
  "map (\<lambda>f. (Severity f, Title f, Lines f))
       (overflowScan ''t.sol'' [''contract C {'', ''    uint256 c = a + b;'', ''}''])
     = [(SeverityHigh, ''Potential Integer Overflow (Solidity < 0.8)'', [2])]
   \<and> overflowScan ''t.sol'' [''pragma solidity unknown;'', ''contract C {'', ''    uint256 c = a + b;'', ''}''] = []"
  by code_simp

























section \<open>The reentrancy detector\<close>

lemma trackFunction_fields:
  "lineNum (trackFunction t st) = lineNum st"
  "findings (trackFunction t st) = findings st"
  "callLine (trackFunction t st) = callLine st"
  "inFunction (trackFunction t st) = (isFunctionStart t \<or> inFunction st)"
  "sawExternalCall (trackFunction t st) = (\<not> isFunctionStart t \<and> sawExternalCall st)"
  "hasGuard (trackFunction t st) = (\<not> isFunctionStart t \<and> hasGuard st)"
  by (simp_all add: trackFunction_def)

lemma detectGuard_fields:
  "lineNum (detectGuard t st) = lineNum st"
  "findings (detectGuard t st) = findings st"
  "callLine (detectGuard t st) = callLine st"
  "inFunction (detectGuard t st) = inFunction st"
  "sawExternalCall (detectGuard t st) = sawExternalCall st"
  "functionName (detectGuard t st) = functionName st"
  "hasGuard (detectGuard t st) = (isGuardSignal t \<or> hasGuard st)"
  by (simp_all add: detectGuard_def)

lemma detectCall_fields:
  "lineNum (detectCall t st) = lineNum st"
  "findings (detectCall t st) = findings st"
  "inFunction (detectCall t st) = inFunction st"
  "hasGuard (detectCall t st) = hasGuard st"
  "functionName (detectCall t st) = functionName st"
  "sawExternalCall (detectCall t st) = (isExternalCall t \<or> sawExternalCall st)"
  "callLine (detectCall t st) = (if isExternalCall t then lineNum st else callLine st)"
  by (simp_all add: detectCall_def)

lemma detectStateChange_fields:
  "lineNum (detectStateChange p t st) = lineNum st"
  "inFunction (detectStateChange p t st) = inFunction st"
  "hasGuard (detectStateChange p t st) = hasGuard st"
  "sawExternalCall (detectStateChange p t st) = sawExternalCall st"
  "callLine (detectStateChange p t st) = callLine st"
  "findings (detectStateChange p t st) =
     (if sawExternalCall st \<and> \<not> hasGuard st \<and> isStateChange t
      then findings st @ [reentrancyFinding p (length (findings st)) (functionName st)
             (lineNum st) (callLine st)]
      else findings st)"
  by (simp_all add: detectStateChange_def)

lemma resetAtClose_fields:
  "lineNum (resetAtClose t st) = lineNum st"
  "findings (resetAtClose t st) = findings st"
  "hasGuard (resetAtClose t st) = hasGuard st"
  "callLine (resetAtClose t st) = callLine st"
  "inFunction (resetAtClose t st) = (inFunction st \<and> t \<noteq> ''}'')"
  "sawExternalCall (resetAtClose t st) = (sawExternalCall st \<and> t \<noteq> ''}'')"
  by (auto simp: resetAtClose_def)

lemmas reentrancy_fields = trackFunction_fields detectGuard_fields detectCall_fields
  detectStateChange_fields resetAtClose_fields

lemma reentrancyStep_lineNum: "lineNum (reentrancyStep path st l) = lineNum st + 1"
  by (simp add: reentrancyStep_def Let_def reentrancy_fields)

lemma reentrancyStep_inFunction:
  "inFunction (reentrancyStep path st l) = ((isFunctionLine l \<or> inFunction st) \<and> \<not> isClose l)"
  by (auto simp: reentrancyStep_def Let_def reentrancy_fields isFunctionLine_def isClose_def)

lemma reentrancyStep_hasGuard:
  "hasGuard (reentrancyStep path st l) =
     (if isFunctionLine l then isGuardLine l
      else if inFunction st then (isGuardLine l \<or> hasGuard st) else hasGuard st)"
  by (simp add: reentrancyStep_def Let_def reentrancy_fields isFunctionLine_def isGuardLine_def)

lemma reentrancyStep_sawExternalCall:
  "sawExternalCall (reentrancyStep path st l) =
     (if isFunctionLine l then isCallLine l \<and> \<not> isClose l
      else if inFunction st then (isCallLine l \<or> sawExternalCall st) \<and> \<not> isClose l
      else sawExternalCall st)"
  by (simp add: reentrancyStep_def Let_def reentrancy_fields isFunctionLine_def isCallLine_def
      isClose_def)

lemma reentrancyStep_callLine:
  "callLine (reentrancyStep path st l) =
     (if (isFunctionLine l \<or> inFunction st) \<and> isCallLine l then lineNum st + 1
      else callLine st)"
  by (simp add: reentrancyStep_def Let_def reentrancy_fields isFunctionLine_def isCallLine_def)

text \<open>The finding a line emits, up to the identifier and the texts.\<close>

lemma reentrancyStep_findings:
  "map (\<lambda>f. (Severity f, Lines f)) (findings (reentrancyStep path st l)) =
     map (\<lambda>f. (Severity f, Lines f)) (findings st) @
     (if (isFunctionLine l \<or> inFunction st)
         \<and> (isCallLine l \<or> (\<not> isFunctionLine l \<and> sawExternalCall st))
         \<and> \<not> (isGuardLine l \<or> (\<not> isFunctionLine l \<and> hasGuard st))
         \<and> isChangeLine l
      then [(SeverityHigh,
             [if isCallLine l then lineNum st + 1 else callLine st, lineNum st + 1])]
      else [])"
  by (simp add: reentrancyStep_def Let_def reentrancy_fields isFunctionLine_def isCallLine_def
      isGuardLine_def isChangeLine_def reentrancyFinding_def)

lemma reentrancyStep_silent:
  "\<not> (isFunctionLine l \<or> inFunction st) \<or> isGuardLine l \<or> (\<not> isFunctionLine l \<and> hasGuard st)
     \<Longrightarrow> findings (reentrancyStep path st l) = findings st"
  by (auto simp: reentrancyStep_def Let_def reentrancy_fields isFunctionLine_def
      isGuardLine_def)

lemma step_guarded:
  assumes "guardedOrOutside st" "\<not> isFunctionLine l"
  shows "guardedOrOutside (reentrancyStep path st l)
       \<and> findings (reentrancyStep path st l) = findings st"
  using assms
  by (auto simp: guardedOrOutside_def reentrancyStep_inFunction reentrancyStep_hasGuard
      reentrancyStep_silent)

lemma foldl_guarded:
  "guardedOrOutside st \<Longrightarrow> \<forall>l \<in> set ls. \<not> isFunctionLine l \<Longrightarrow>
     findings (foldl (reentrancyStep path) st ls) = findings st"
proof (induction ls arbitrary: st)
  case Nil
  show ?case by simp
next
  case (Cons l ls)
  have "guardedOrOutside (reentrancyStep path st l)"
    and "findings (reentrancyStep path st l) = findings st"
    using step_guarded [of st l path] Cons.prems by simp_all
  then show ?case using Cons.IH [of "reentrancyStep path st l"] Cons.prems by simp
qed

lemma step_guard_line:
  assumes "isGuardLine g"
  shows "guardedOrOutside (reentrancyStep path st g)
       \<and> findings (reentrancyStep path st g) = findings st"
  using assms
  by (auto simp: guardedOrOutside_def reentrancyStep_inFunction reentrancyStep_hasGuard
      reentrancyStep_silent)

lemma comment_not_signal: "isComment c \<Longrightarrow> \<not> isCallLine c \<and> \<not> isChangeLine c"
  by (simp add: isComment_def isCallLine_def isChangeLine_def isExternalCall_def
      isStateChange_def list_ex_iff)

lemma callSeen_snoc: "callSeen (seg @ [l]) = (callSeen seg \<or> isCallLine l)"
  by (simp add: callSeen_def)

lemma guardSeen_snoc: "guardSeen (seg @ [l]) = (guardSeen seg \<or> isGuardLine l)"
  by (simp add: guardSeen_def)

lemma lastCallIndex_snoc:
  "lastCallIndex (seg @ [l]) = (if isCallLine l then length seg else lastCallIndex seg)"
proof -
  have "filter (\<lambda>j. isCallLine ((seg @ [l]) ! j)) [0..<length seg]
      = filter (\<lambda>j. isCallLine (seg ! j)) [0..<length seg]"
    by (rule filter_cong) (simp_all add: nth_append)
  then show ?thesis by (simp add: lastCallIndex_def)
qed

lemma isFunctionLine_not_close: "isFunctionLine l \<Longrightarrow> \<not> isClose l"
  by (auto simp: isFunctionLine_def isClose_def isFunctionStart_def)

lemma lastCallIndex_single: "isCallLine d \<Longrightarrow> lastCallIndex [d] = 0"
  by (simp add: lastCallIndex_def)

lemma foldl_reentrancy_lineNum:
  "lineNum (foldl (reentrancyStep path) st ls) = lineNum st + int (length ls)"
  by (induction ls arbitrary: st) (simp_all add: reentrancyStep_lineNum)

lemma segmentOf_snoc:
  "segmentOf (ls @ [l]) = (if isFunctionLine l then [l] else segmentOf ls @ [l])"
  by (simp add: segmentOf_def)

lemma segmentOf_Nil: "segmentOf [] = []"
  by (simp add: segmentOf_def)

lemma takeThrough_length: "length (takeThrough P xs) \<le> length xs"
  by (induction xs) simp_all

lemma segmentOf_length: "length (segmentOf ls) \<le> length ls"
  using takeThrough_length [of isFunctionLine "rev ls"] by (simp add: segmentOf_def)

lemma insideFunction_snoc:
  "insideFunction (ls @ [l]) =
     (isFunctionLine l \<or> (list_ex isFunctionLine ls \<and> \<not> list_ex isClose (segmentOf ls)))"
  by (auto simp: insideFunction_def segmentOf_snoc)

lemma callLineOf_snoc:
  "callLineOf (ls @ [l]) =
     (if isFunctionLine l then int (length ls) + 1 + int (lastCallIndex [l])
      else if isCallLine l then int (length ls) + 1
      else callLineOf ls)"
  using segmentOf_length [of ls]
  by (simp add: callLineOf_def segmentOf_snoc lastCallIndex_snoc)

lemma expectedFindings_snoc:
  "expectedFindings (ls @ [l]) =
     expectedFindings ls @
     (if lineEmits (ls @ [l])
      then [(SeverityHigh, [callLineOf (ls @ [l]), int (length ls) + 1])]
      else [])"
proof -
  have f: "filter (\<lambda>i. lineEmits (take (Suc i) (ls @ [l]))) [0..<length ls]
      = filter (\<lambda>i. lineEmits (take (Suc i) ls)) [0..<length ls]"
    by (rule filter_cong) simp_all
  have m: "map (\<lambda>i. (SeverityHigh, [callLineOf (take (Suc i) (ls @ [l])), int i + 1]))
       (filter (\<lambda>i. lineEmits (take (Suc i) ls)) [0..<length ls])
     = map (\<lambda>i. (SeverityHigh, [callLineOf (take (Suc i) ls), int i + 1]))
       (filter (\<lambda>i. lineEmits (take (Suc i) ls)) [0..<length ls])"
    by (rule map_cong) auto
  have u: "[0..<length (ls @ [l])] = [0..<length ls] @ [length ls]"
    by simp
  show ?thesis
    unfolding expectedFindings_def u filter_append map_append f m
    by simp
qed

lemma isClose_plain: "isClose l \<Longrightarrow> \<not> isChangeLine l \<and> \<not> isFunctionLine l"
  by (auto simp: isClose_def isChangeLine_def isFunctionLine_def isStateChange_def
      isFunctionStart_def stateChangePatterns_def)

lemma fileState_init: "fileState [] reentrancyInit"
  by (simp add: fileState_def reentrancyInit_def expectedFindings_def)

lemma fileState_step:
  assumes inv: "fileState ls st"
  shows "fileState (ls @ [l]) (reentrancyStep path st l)"
proof -
  let ?seg = "segmentOf ls"
  let ?inside = "list_ex isFunctionLine ls \<and> \<not> list_ex isClose ?seg"
  have i: "lineNum st = int (length ls)" "inFunction st = ?inside"
      "inFunction st \<Longrightarrow> hasGuard st = guardSeen ?seg"
      "inFunction st \<Longrightarrow> sawExternalCall st = callSeen ?seg"
      "inFunction st \<Longrightarrow> callSeen ?seg \<Longrightarrow> callLine st = callLineOf ls"
      "map (\<lambda>f. (Severity f, Lines f)) (findings st) = expectedFindings ls"
    using inv by (simp_all add: fileState_def)
  have a: "lineNum (reentrancyStep path st l) = int (length (ls @ [l]))"
    using i(1) by (simp add: reentrancyStep_lineNum)
  have b: "inFunction (reentrancyStep path st l)
      = (list_ex isFunctionLine (ls @ [l]) \<and> \<not> list_ex isClose (segmentOf (ls @ [l])))"
    using i(2) isFunctionLine_not_close [of l]
    by (auto simp: reentrancyStep_inFunction segmentOf_snoc)
  show ?thesis
  proof (cases "isFunctionLine l")
    case True
    have nc: "\<not> isClose l" using True by (rule isFunctionLine_not_close)
    have e: "lineEmits (ls @ [l]) = (isChangeLine l \<and> isCallLine l \<and> \<not> isGuardLine l)"
      using True by (simp add: lineEmits_def insideFunction_snoc segmentOf_snoc emitsAt_def
          callSeen_def guardSeen_def)
    have c: "hasGuard (reentrancyStep path st l) = guardSeen (segmentOf (ls @ [l]))"
      "sawExternalCall (reentrancyStep path st l) = callSeen (segmentOf (ls @ [l]))"
      "callSeen (segmentOf (ls @ [l])) \<Longrightarrow>
         callLine (reentrancyStep path st l) = callLineOf (ls @ [l])"
      using True nc i(1)
      by (simp_all add: reentrancyStep_hasGuard reentrancyStep_sawExternalCall
          reentrancyStep_callLine segmentOf_snoc callLineOf_snoc guardSeen_def callSeen_def
          lastCallIndex_single)
    have f: "map (\<lambda>f. (Severity f, Lines f)) (findings (reentrancyStep path st l))
        = expectedFindings (ls @ [l])"
      using True i(1)
      by (auto simp: reentrancyStep_findings i(6) expectedFindings_snoc e callLineOf_snoc
          lastCallIndex_single)
    show ?thesis unfolding fileState_def using a b c f by blast
  next
    case False
    show ?thesis
    proof (cases "inFunction st")
      case True
      have s: "segmentOf (ls @ [l]) = ?seg @ [l]" using False by (simp add: segmentOf_snoc)
      have ins: "insideFunction (ls @ [l])"
        using True i(2) by (simp add: insideFunction_snoc)
      have e: "lineEmits (ls @ [l])
          = (isChangeLine l \<and> (callSeen ?seg \<or> isCallLine l) \<and> \<not> (guardSeen ?seg \<or> isGuardLine l))"
        using ins by (simp add: lineEmits_def s emitsAt_def callSeen_snoc guardSeen_snoc)
      have c: "hasGuard (reentrancyStep path st l) = guardSeen (segmentOf (ls @ [l]))"
        using True False i(3) by (auto simp: reentrancyStep_hasGuard s guardSeen_snoc)
      have d: "inFunction (reentrancyStep path st l) \<Longrightarrow>
          sawExternalCall (reentrancyStep path st l) = callSeen (segmentOf (ls @ [l]))"
        using True False i(4)
        by (auto simp: reentrancyStep_sawExternalCall reentrancyStep_inFunction s callSeen_snoc)
      have g: "callSeen (segmentOf (ls @ [l])) \<Longrightarrow>
          callLine (reentrancyStep path st l) = callLineOf (ls @ [l])"
        using True False i(1,5)
        by (auto simp: reentrancyStep_callLine s callSeen_snoc callLineOf_snoc)
      have f: "map (\<lambda>f. (Severity f, Lines f)) (findings (reentrancyStep path st l))
          = expectedFindings (ls @ [l])"
        using True False i(1,3,4,5)
        by (auto simp: reentrancyStep_findings i(6) expectedFindings_snoc e callLineOf_snoc)
      show ?thesis unfolding fileState_def using a b c d g f by blast
    next
      case out: False
      have n: "\<not> inFunction (reentrancyStep path st l)"
        using out False by (simp add: reentrancyStep_inFunction)
      have e: "\<not> lineEmits (ls @ [l])"
        using out False i(2) by (simp add: lineEmits_def insideFunction_snoc)
      have f: "map (\<lambda>f. (Severity f, Lines f)) (findings (reentrancyStep path st l))
          = expectedFindings (ls @ [l])"
        using out False by (simp add: reentrancyStep_findings i(6) expectedFindings_snoc e)
      show ?thesis unfolding fileState_def using a b n f by blast
    qed
  qed
qed

lemma fileState_scan: "fileState ls (foldl (reentrancyStep path) reentrancyInit ls)"
proof (induction ls rule: rev_induct)
  case Nil
  show ?case using fileState_init by simp
next
  case (snoc l ls)
  then show ?case using fileState_step by simp
qed

text \<open>
  C10, as the code has it. Guard detection is not comment-filtered: after a line with
  a guard token, a comment line included, no finding is emitted on that line or on
  any later line up to the next line that has \<open>function \<close> and an opening
  parenthesis in it, which the scanner takes for a function declaration and which
  clears the guard. Call and state-change detection skip comment lines.
\<close>

theorem guard_line_silences_function:
  assumes "isGuardLine g" and "\<forall>l \<in> set post. \<not> isFunctionLine l"
  shows "reentrancyScan path (pre @ g # post) = reentrancyScan path pre
       \<and> (isComment c \<longrightarrow> \<not> isCallLine c \<and> \<not> isChangeLine c)"
proof -
  let ?st = "foldl (reentrancyStep path) reentrancyInit pre"
  have g: "guardedOrOutside (reentrancyStep path ?st g)"
    "findings (reentrancyStep path ?st g) = findings ?st"
    using step_guard_line [OF assms(1), of path ?st] by simp_all
  have "findings (foldl (reentrancyStep path) (reentrancyStep path ?st g) post) = findings ?st"
    using foldl_guarded [OF g(1) assms(2)] g(2) by simp
  then show ?thesis
    using comment_not_signal [of c] by (simp add: reentrancyScan_def)
qed

theorem guard_line_silences_function_witness:
  "isGuardLine ''    // nonReentrant'' \<and> isComment ''    // nonReentrant''
   \<and> reentrancyScan ''safe.sol''
        ([''function withdraw() public {'', ''    msg.sender.call{value: amount}();'']
         @ ''    // nonReentrant'' # [''    balances[msg.sender] = 0;'', ''}'']) = []
   \<and> map Lines (reentrancyScan ''safe.sol''
        [''function withdraw() public {'', ''    msg.sender.call{value: amount}();'',
         ''    balances[msg.sender] = 0;'', ''}'']) = [[2, 3]]"
proof -
  have g: "isGuardLine ''    // nonReentrant''" by code_simp
  have c: "isComment ''    // nonReentrant''" by code_simp
  have p: "\<forall>l \<in> set [''    balances[msg.sender] = 0;'', ''}'']. \<not> isFunctionLine l"
    by code_simp
  have e: "reentrancyScan ''safe.sol''
      [''function withdraw() public {'', ''    msg.sender.call{value: amount}();''] = []"
    by code_simp
  have u: "map Lines (reentrancyScan ''safe.sol''
        [''function withdraw() public {'', ''    msg.sender.call{value: amount}();'',
         ''    balances[msg.sender] = 0;'', ''}'']) = [[2, 3]]"
    by code_simp
  note t = guard_line_silences_function [OF g p, of "''safe.sol''"
      "[''function withdraw() public {'', ''    msg.sender.call{value: amount}();'']"
      "''    // nonReentrant''"]
  from t have "reentrancyScan ''safe.sol''
        ([''function withdraw() public {'', ''    msg.sender.call{value: amount}();'']
         @ ''    // nonReentrant'' # [''    balances[msg.sender] = 0;'', ''}'']) = []"
    by (simp only: e)
  then show ?thesis using g c u by (intro conjI)
qed

text \<open>
  C10 as stated fails. The declaration on line 1 has a guard token; the comment on
  line 2 has \<open>function \<close> and an opening parenthesis in it, so the scanner takes it for
  a declaration and clears the guard; the state change on line 4, after the call on
  line 3 and inside the function that line 1 declared guarded, gets a finding.
\<close>

theorem guard_cleared_by_comment_counterexample:
  "isGuardLine (guardedThenComment ! 0)
   \<and> isComment (guardedThenComment ! 1)
   \<and> isFunctionLine (guardedThenComment ! 1)
   \<and> isCallLine (guardedThenComment ! 2)
   \<and> isChangeLine (guardedThenComment ! 3)
   \<and> \<not> list_ex isClose (take 4 guardedThenComment)
   \<and> map Lines (reentrancyScan ''t.sol'' guardedThenComment) = [[3, 4]]"
  by code_simp

text \<open>
  C1, as the code has it, for a whole file. A line emits a finding exactly when it is
  inside a function (a function-declaration line occurs at or before it, and no bare
  closing brace lies between the last such line and it), it is a non-comment line
  with a state-change signal, a non-comment call signal occurs on it or on an earlier
  line of its segment, and no guard signal occurs on it or on an earlier line of its
  segment. The finding is High and its lines are the last call line of the segment
  and the line itself. The findings of the file are those of its emitting lines, in
  order; a finding once emitted stays.
\<close>

theorem reentrancyScan_findings_of_file:
  "map (\<lambda>f. (Severity f, Lines f)) (reentrancyScan path ls) = expectedFindings ls"
  using fileState_scan [of ls path] by (simp add: fileState_def reentrancyScan_def)

theorem reentrancyScan_findings_of_file_witness:
  "expectedFindings vulnerableContract = [(SeverityHigh, [11, 14])]
   \<and> map (\<lambda>f. (Severity f, Lines f)) (reentrancyScan ''v.sol'' vulnerableContract)
       = [(SeverityHigh, [11, 14])]
   \<and> insideFunction (take 14 vulnerableContract)
   \<and> segmentOf (take 14 vulnerableContract) = take 8 (drop 6 vulnerableContract)
   \<and> \<not> insideFunction vulnerableContract"
proof -
  have x: "expectedFindings vulnerableContract = [(SeverityHigh, [11, 14])]" by code_simp
  have i: "insideFunction (take 14 vulnerableContract)"
    "segmentOf (take 14 vulnerableContract) = take 8 (drop 6 vulnerableContract)"
    "\<not> insideFunction vulnerableContract"
    by code_simp+
  note t = reentrancyScan_findings_of_file [of "''v.sol''" vulnerableContract]
  from t have "map (\<lambda>f. (Severity f, Lines f)) (reentrancyScan ''v.sol'' vulnerableContract)
       = [(SeverityHigh, [11, 14])]"
    by (simp only: x)
  then show ?thesis using x i by (intro conjI)
qed

text \<open>
  C1 as stated fails. Line 2 has a call signal and no guard was seen so far; line 4 is a
  later non-comment state-change line of the function, and its finding names line 3,
  the most recent call, not line 2. A guard signal (line 5) precedes the state-change
  line 6, and yet the function has a finding.
\<close>

theorem reentrancy_call_line_counterexample:
  "isCallLine (twoCallsThenGuard ! 1)
   \<and> \<not> guardSeen (take 2 twoCallsThenGuard)
   \<and> isChangeLine (twoCallsThenGuard ! 3)
   \<and> \<not> isComment (twoCallsThenGuard ! 3)
   \<and> isGuardLine (twoCallsThenGuard ! 4)
   \<and> isChangeLine (twoCallsThenGuard ! 5)
   \<and> map Lines (reentrancyScan ''t.sol'' twoCallsThenGuard) = [[3, 4]]"
  by code_simp

section \<open>The sort\<close>

lemma skipLess_ge: "i \<le> skipLess lt xs a i j"
  by (induction lt xs a i j rule: skipLess.induct) (subst skipLess.simps, auto)

lemma skipNotLess_le: "skipNotLess lt xs a i j \<le> j"
  by (induction lt xs a i j rule: skipNotLess.induct) (subst skipNotLess.simps, auto)

lemma insertLast_mset: "mset (insertLast lt xs x) = add_mset x (mset xs)"
proof (induction lt xs x rule: insertLast.induct)
  case (1 lt xs x)
  show ?case
  proof (cases "xs \<noteq> [] \<and> lt x (last xs)")
    case True
    then have "mset (insertLast lt xs x) = add_mset (last xs) (add_mset x (mset (butlast xs)))"
      using 1 by (subst insertLast.simps) simp
    moreover have "mset xs = add_mset (last xs) (mset (butlast xs))"
      using True by (metis append_butlast_last_id mset.simps(2) mset_append union_mset_add_mset_right add.right_neutral mset.simps(1))
    ultimately show ?thesis by simp
  next
    case False
    then show ?thesis by (subst insertLast.simps) auto
  qed
qed

lemma insertLast_set: "set (insertLast lt xs x) = insert x (set xs)"
  using insertLast_mset [of lt xs x] by (metis set_mset_add_mset_insert set_mset_mset)

lemma sorted_le_last: "sorted (map key xs) \<Longrightarrow> y \<in> set xs \<Longrightarrow> key y \<le> key (last xs)"
proof (induction xs rule: rev_induct)
  case Nil
  then show ?case by simp
next
  case (snoc z zs)
  then show ?case by (auto simp: sorted_append)
qed

lemma insertLast_sorted:
  "sorted (map key xs) \<Longrightarrow> sorted (map key (insertLast (\<lambda>a b. key a < key b) xs x))"
proof (induction "\<lambda>a b. key a < key b" xs x rule: insertLast.induct)
  case (1 xs x)
  show ?case
  proof (cases "xs \<noteq> [] \<and> key x < key (last xs)")
    case True
    have xs: "xs = butlast xs @ [last xs]" using True by simp
    have sb: "sorted (map key (butlast xs))" and le: "\<forall>y\<in>set (butlast xs). key y \<le> key (last xs)"
      using 1(2) xs by (metis map_append sorted_append, metis (no_types, lifting) xs 1(2) sorted_append map_append list.set_intros(1) list.simps(9) imageI set_map)
    have "sorted (map key (insertLast (\<lambda>a b. key a < key b) (butlast xs) x))"
      using 1(1) True sb by simp
    moreover have "\<forall>y\<in>set (insertLast (\<lambda>a b. key a < key b) (butlast xs) x). key y \<le> key (last xs)"
      using le True by (auto simp: insertLast_set)
    ultimately show ?thesis using True
      by (subst insertLast.simps) (auto simp: sorted_append)
  next
    case False
    have "key y \<le> key x" if "y \<in> set xs" for y
    proof -
      have "xs \<noteq> []" using that by auto
      then have "key (last xs) \<le> key x" using False by simp
      moreover have "key y \<le> key (last xs)" using 1(2) that by (rule sorted_le_last)
      ultimately show ?thesis by simp
    qed
    then show ?thesis using False 1(2)
      by (subst insertLast.simps) (auto simp: sorted_append)
  qed
qed


lemma insertionSort_mset: "mset (insertionSort_func lt xs) = mset xs"
proof -
  have "mset (foldl (insertLast lt) acc xs) = mset acc + mset xs" for acc
    by (induction xs arbitrary: acc) (simp_all add: insertLast_mset)
  then show ?thesis by (simp add: insertionSort_func_def)
qed

lemma insertionSort_sorted: "sorted (map key (insertionSort_func (\<lambda>a b. key a < key b) xs))"
proof -
  have "sorted (map key acc) \<Longrightarrow> sorted (map key (foldl (insertLast (\<lambda>a b. key a < key b)) acc xs))"
    for acc
    by (induction xs arbitrary: acc) (simp_all add: insertLast_sorted)
  then show ?thesis by (simp add: insertionSort_func_def)
qed

lemma insertionSort_length: "length (insertionSort_func lt xs) = length xs"
  using insertionSort_mset [of lt xs] by (metis size_mset)

lemma insertionSort_set: "set (insertionSort_func lt xs) = set xs"
  using insertionSort_mset [of lt xs] by (metis set_mset_mset)

lemma skipLess_inv:
  "partInv lt p xs i j \<Longrightarrow> a = 0 \<Longrightarrow>
   partInv lt p xs (skipLess lt xs a i j) j
   \<and> (skipLess lt xs a i j \<le> j \<longrightarrow> \<not> lt (xs ! nat (skipLess lt xs a i j)) p)"
proof (induction lt xs a i j rule: skipLess.induct)
  case (1 lt xs a i j)
  show ?case
  proof (cases "i \<le> j \<and> lessAt lt xs i a")
    case True
    have "partInv lt p xs (i + 1) j"
      using 1(2,3) True unfolding partInv_def lessAt_def
      by (auto simp: less_le)
    then show ?thesis using 1(1) True 1(3) by (subst (1 2 3) skipLess.simps) simp
  next
    case False
    then show ?thesis using 1(2,3) by (subst (1 2 3) skipLess.simps) (auto simp: partInv_def lessAt_def)
  qed
qed


lemma skipNotLess_inv:
  "partInv lt p xs i j \<Longrightarrow> a = 0 \<Longrightarrow>
   partInv lt p xs i (skipNotLess lt xs a i j)
   \<and> (i \<le> skipNotLess lt xs a i j \<longrightarrow> lt (xs ! nat (skipNotLess lt xs a i j)) p)"
proof (induction lt xs a i j rule: skipNotLess.induct)
  case (1 lt xs a i j)
  show ?case
  proof (cases "i \<le> j \<and> \<not> lessAt lt xs j a")
    case True
    have "\<not> lt (xs ! nat k) p" if "j - 1 < k" "k < int (length xs)" for k
    proof (cases "k = j")
      case True
      then show ?thesis using \<open>i \<le> j \<and> \<not> lessAt lt xs j a\<close> 1(2,3)
        by (simp add: lessAt_def partInv_def)
    next
      case False
      then have "j < k" using that by simp
      then show ?thesis using 1(2) that by (simp add: partInv_def)
    qed
    then have "partInv lt p xs i (j - 1)"
      using 1(2) True unfolding partInv_def by auto
    then show ?thesis using 1(1) True 1(3) by (subst (1 2 3) skipNotLess.simps) simp
  next
    case False
    then show ?thesis using 1(2,3)
      by (subst (1 2 3) skipNotLess.simps) (auto simp: partInv_def lessAt_def)
  qed
qed

lemma swapAt_length: "length (swapAt i j xs) = length xs"
  by (simp add: swapAt_def)

lemma swapAt_mset:
  "0 \<le> i \<Longrightarrow> i < int (length xs) \<Longrightarrow> 0 \<le> j \<Longrightarrow> j < int (length xs) \<Longrightarrow> mset (swapAt i j xs) = mset xs"
  unfolding swapAt_def by (simp add: mset_swap)

lemma swapAt_nth:
  "0 \<le> i \<Longrightarrow> i < int (length xs) \<Longrightarrow> 0 \<le> j \<Longrightarrow> j < int (length xs) \<Longrightarrow> 0 \<le> k \<Longrightarrow> k < int (length xs) \<Longrightarrow>
   swapAt i j xs ! nat k = (if k = j then xs ! nat i else if k = i then xs ! nat j else xs ! nat k)"
  unfolding swapAt_def by (auto simp: nth_list_update)

lemma partInv_swap:
  assumes inv: "partInv lt p xs i j" and ij: "i \<le> j"
    and ni: "\<not> lt (xs ! nat i) p" and lj: "lt (xs ! nat j) p"
  shows "partInv lt p (swapAt i j xs) (i + 1) (j - 1)"
proof -
  have r: "1 \<le> i" "j < int (length xs)" "xs \<noteq> []" "xs ! 0 = p"
    using inv by (auto simp: partInv_def)
  have "i \<noteq> j" using ni lj by auto
  then have lt': "i < j" using ij by simp
  have n: "swapAt i j xs ! nat k
        = (if k = j then xs ! nat i else if k = i then xs ! nat j else xs ! nat k)"
    if "0 \<le> k" "k < int (length xs)" for k
    using swapAt_nth [of i xs j k] r lt' that by simp
  have z: "swapAt i j xs ! 0 = p" using n [of 0] r lt' by simp
  have a: "lt (swapAt i j xs ! nat k) p" if "1 \<le> k" "k < i + 1" for k
    using n [of k] that r lt' lj inv by (auto simp: partInv_def)
  have b: "\<not> lt (swapAt i j xs ! nat k) p" if "j - 1 < k" "k < int (length xs)" for k
    using n [of k] that r lt' ni inv by (auto simp: partInv_def)
  have ne: "swapAt i j xs \<noteq> []" using r(3) swapAt_length [of i j xs] by (metis length_0_conv)
  show ?thesis
    unfolding partInv_def swapAt_length using z a b r lt' ne by auto
qed

lemma partitionLoop_inv:
  "partInv lt p xs i j \<Longrightarrow> a = 0 \<Longrightarrow> partitionLoop lt xs a i j = (ys, m) \<Longrightarrow>
   mset ys = mset xs \<and> partInv lt p ys (m + 1) m"
proof (induction lt xs a i j rule: partitionLoop.induct)
  case (1 lt xs a i j)
  define i' where "i' = skipLess lt xs a i j"
  define j' where "j' = skipNotLess lt xs a i' j"
  have s1: "partInv lt p xs i' j" "i' \<le> j \<longrightarrow> \<not> lt (xs ! nat i') p"
    using skipLess_inv [OF 1(2,3)] by (simp_all add: i'_def)
  have s2: "partInv lt p xs i' j'" "i' \<le> j' \<longrightarrow> lt (xs ! nat j') p"
    using skipNotLess_inv [OF s1(1) 1(3)] by (simp_all add: j'_def)
  have jj: "j' \<le> j" unfolding j'_def by (rule skipNotLess_le)
  show ?case
  proof (cases "i' > j'")
    case True
    then have "partitionLoop lt xs a i j = (xs, j')"
      by (subst partitionLoop.simps) (simp add: i'_def j'_def Let_def)
    then have e: "ys = xs" "m = j'" using 1(4) by simp_all
    have "i' = j' + 1" using True s2(1) by (simp add: partInv_def)
    then show ?thesis using s2(1) e by simp
  next
    case False
    then have "partitionLoop lt xs a i j = partitionLoop lt (swapAt i' j' xs) a (i' + 1) (j' - 1)"
      by (subst partitionLoop.simps) (simp add: i'_def j'_def Let_def)
    then have r: "partitionLoop lt (swapAt i' j' xs) a (i' + 1) (j' - 1) = (ys, m)"
      using 1(4) by simp
    have sw: "partInv lt p (swapAt i' j' xs) (i' + 1) (j' - 1)"
      using partInv_swap [OF s2(1)] False s1(2) s2(2) jj by simp
    have "mset ys = mset (swapAt i' j' xs) \<and> partInv lt p ys (m + 1) m"
      using 1(1) [OF i'_def j'_def False sw 1(3) r] .
    moreover have "mset (swapAt i' j' xs) = mset xs"
      using s2(1) False by (intro swapAt_mset) (auto simp: partInv_def)
    ultimately show ?thesis by simp
  qed
qed


lemma partition_func_post:
  assumes n: "xs0 \<noteq> []" and pv: "0 \<le> pivot" "pivot < int (length xs0)"
    and r: "partition_func lt xs0 0 (int (length xs0)) pivot = (zs, m)"
  shows "mset zs = mset xs0 \<and> 0 \<le> m \<and> m < int (length zs)
     \<and> (\<forall>k. 0 \<le> k \<and> k < m \<longrightarrow> lt (zs ! nat k) (zs ! nat m))
     \<and> (\<forall>k. m < k \<and> k < int (length zs) \<longrightarrow> \<not> lt (zs ! nat k) (zs ! nat m))"
proof -
  define xs where "xs = swapAt 0 pivot xs0"
  define p where "p = xs ! 0"
  define i where "i = skipLess lt xs 0 (0 + 1) (int (length xs0) - 1)"
  define j where "j = skipNotLess lt xs 0 i (int (length xs0) - 1)"
  have pf: "partition_func lt xs0 0 (int (length xs0)) pivot =
      (if i > j then (swapAt j 0 xs, j)
       else (case partitionLoop lt (swapAt i j xs) 0 (i + 1) (j - 1) of
               (ys, m) \<Rightarrow> (swapAt m 0 ys, m)))"
    unfolding partition_func_def Let_def xs_def i_def j_def by simp
  have len: "length xs = length xs0" by (simp add: xs_def swapAt_length)
  have ms: "mset xs = mset xs0" unfolding xs_def using n pv by (intro swapAt_mset) auto
  have "Suc 0 \<le> length xs0" using n by (cases xs0) auto
  then have i0: "partInv lt p xs 1 (int (length xs) - 1)"
    using len n by (auto simp: partInv_def p_def)
  have s1: "partInv lt p xs i (int (length xs) - 1)"
      "i \<le> int (length xs) - 1 \<longrightarrow> \<not> lt (xs ! nat i) p"
    using skipLess_inv [OF i0, of 0] by (simp_all add: i_def len)
  have s2: "partInv lt p xs i j" "i \<le> j \<longrightarrow> lt (xs ! nat j) p"
    using skipNotLess_inv [OF s1(1), of 0] by (simp_all add: j_def len)
  have jj: "j \<le> int (length xs) - 1" unfolding j_def len by (rule skipNotLess_le)
  have fin: "mset (swapAt m 0 ys) = mset xs0 \<and> 0 \<le> m \<and> m < int (length (swapAt m 0 ys))
     \<and> (\<forall>k. 0 \<le> k \<and> k < m \<longrightarrow> lt (swapAt m 0 ys ! nat k) (swapAt m 0 ys ! nat m))
     \<and> (\<forall>k. m < k \<and> k < int (length (swapAt m 0 ys)) \<longrightarrow>
            \<not> lt (swapAt m 0 ys ! nat k) (swapAt m 0 ys ! nat m))"
    if inv: "partInv lt p ys (m + 1) m" and my: "mset ys = mset xs0" for ys m
  proof -
    have b: "0 \<le> m" "m < int (length ys)" "ys \<noteq> []" "ys ! 0 = p"
      using inv by (auto simp: partInv_def)
    have nth: "swapAt m 0 ys ! nat k
        = (if k = 0 then ys ! nat m else if k = m then ys ! 0 else ys ! nat k)"
      if "0 \<le> k" "k < int (length ys)" for k
      using swapAt_nth [of m ys 0 k] b that by auto
    have pm: "swapAt m 0 ys ! nat m = p" using nth [of m] b by auto
    have lo: "lt (swapAt m 0 ys ! nat k) p" if "0 \<le> k" "k < m" for k
    proof (cases "k = 0")
      case True
      then show ?thesis using nth [of 0] b that inv by (auto simp: partInv_def)
    next
      case False
      then show ?thesis using nth [of k] b that inv by (auto simp: partInv_def)
    qed
    have hi: "\<not> lt (swapAt m 0 ys ! nat k) p" if "m < k" "k < int (length ys)" for k
      using nth [of k] b that inv by (auto simp: partInv_def)
    have "mset (swapAt m 0 ys) = mset ys" using b by (intro swapAt_mset) auto
    then show ?thesis using my pm lo hi b by (simp add: swapAt_length)
  qed
  show ?thesis
  proof (cases "i > j")
    case True
    then have e: "zs = swapAt j 0 xs" "m = j"
      using r unfolding pf by auto
    have "i = j + 1" using True s2(1) by (simp add: partInv_def)
    then have "partInv lt p xs (j + 1) j" using s2(1) by simp
    then show ?thesis using fin [of xs j] ms e by simp
  next
    case False
    obtain ys m' where pl: "partitionLoop lt (swapAt i j xs) 0 (i + 1) (j - 1) = (ys, m')"
      by (cases "partitionLoop lt (swapAt i j xs) 0 (i + 1) (j - 1)") auto
    then have e: "zs = swapAt m' 0 ys" "m = m'"
      using r False unfolding pf by auto
    have sw: "partInv lt p (swapAt i j xs) (i + 1) (j - 1)"
      using partInv_swap [OF s2(1)] False s1(2) s2(2) jj by simp
    have "mset ys = mset (swapAt i j xs) \<and> partInv lt p ys (m' + 1) m'"
      using partitionLoop_inv [OF sw _ pl] by simp
    moreover have "mset (swapAt i j xs) = mset xs"
      using s2(1) False by (intro swapAt_mset) (auto simp: partInv_def)
    ultimately show ?thesis using fin [of ys m'] ms e by simp
  qed
qed


lemma median_range: "fst (median_func lt xs a b c s) \<in> {a, b, c}"
  by (auto simp: median_func_def order2_func_def split: prod.splits if_splits)

lemma choosePivot_range:
  assumes "0 < n"
  shows "0 \<le> fst (choosePivot_func lt xs 0 n) \<and> fst (choosePivot_func lt xs 0 n) < n"
proof -
  have "fst (choosePivot_func lt xs 0 n) \<in> {n div 4, n div 4 * 2, n div 4 * 3}"
    using median_range [of lt xs "n div 4" "n div 4 * 2" "n div 4 * 3" 0]
    by (auto simp: choosePivot_func_def Let_def)
  then show ?thesis using assms by auto
qed

lemma partialInsertionSort_sorted:
  assumes "partialInsertionSort_func (\<lambda>a b. key a < key b) xs"
  shows "sorted (map key xs)"
proof -
  have "key (xs ! i) \<le> key (xs ! Suc i)" if "Suc i < length xs" for i
  proof -
    have "Suc i \<in> set [1..<length xs]" using that by simp
    then have "\<not> key (xs ! Suc i) < key (xs ! (Suc i - 1))"
      using assms unfolding partialInsertionSort_func_def list_all_iff by blast
    then show ?thesis by simp
  qed
  then show ?thesis by (simp add: sorted_iff_nth_Suc)
qed


text \<open>
  Under an order given by a key, what \<open>pdqsort_func\<close> returns is a rearrangement of the
  slice, ascending in the key.
\<close>

lemma pdqsort_func_sorted:
  assumes r: "pdqsort_func (\<lambda>a b. key a < key b) xs = Some ys"
  shows "mset ys = mset xs \<and> sorted (map key ys)"
proof (cases "length xs \<le> 12")
  case True
  then have "ys = insertionSort_func (\<lambda>a b. key a < key b) xs"
    using r by (simp add: pdqsort_func_def)
  then show ?thesis by (simp add: insertionSort_mset insertionSort_sorted)
next
  case long: False
  let ?lt = "\<lambda>a b. key a < key b"
  have n: "xs \<noteq> []" using long by auto
  obtain pivot swaps where cp: "choosePivot_func ?lt xs 0 (int (length xs)) = (pivot, swaps)"
    by (cases "choosePivot_func ?lt xs 0 (int (length xs))") auto
  obtain zs m where pf: "partition_func ?lt xs 0 (int (length xs)) pivot = (zs, m)"
    by (cases "partition_func ?lt xs 0 (int (length xs)) pivot") auto
  have short: "\<not> 50 \<le> length xs"
    using r long by (auto simp: pdqsort_func_def split: if_splits)
  show ?thesis
  proof (cases "swaps = 0 \<and> partialInsertionSort_func ?lt xs")
    case True
    then have "ys = xs" using r cp long short by (simp add: pdqsort_func_def)
    then show ?thesis using True partialInsertionSort_sorted by auto
  next
    case False
    have pr: "0 \<le> pivot" "pivot < int (length xs)"
      using choosePivot_range [of "int (length xs)" ?lt xs] n cp by simp_all
    note post = partition_func_post [OF n pr pf]
    have pm: "0 \<le> m" "m < int (length zs)" "mset zs = mset xs"
      and plo: "\<And>q. 0 \<le> q \<Longrightarrow> q < m \<Longrightarrow> key (zs ! nat q) < key (zs ! nat m)"
      and phi: "\<And>q. m < q \<Longrightarrow> q < int (length zs) \<Longrightarrow> \<not> key (zs ! nat q) < key (zs ! nat m)"
      using post by auto
    define k where "k = nat m"
    have k: "k < length zs" using pm unfolding k_def by linarith
    have lo: "key x < key (zs ! k)" if "x \<in> set (take k zs)" for x
    proof -
      from that obtain q where "q < length (take k zs)" "x = take k zs ! q"
        unfolding in_set_conv_nth by blast
      then have q: "q < k" "x = zs ! q" by simp_all
      have "0 \<le> int q" "int q < m" using q(1) pm unfolding k_def by linarith+
      from plo [OF this] show ?thesis unfolding q(2) k_def [symmetric] by simp
    qed
    have hi: "key (zs ! k) \<le> key x" if "x \<in> set (drop (Suc k) zs)" for x
    proof -
      from that obtain q where "q < length (drop (Suc k) zs)" "x = drop (Suc k) zs ! q"
        unfolding in_set_conv_nth by blast
      then have q: "Suc k + q < length zs" "x = zs ! (Suc k + q)" by auto
      have e: "nat (m + 1 + int q) = Suc k + q" using pm unfolding k_def by linarith
      have "m < m + 1 + int q" "m + 1 + int q < int (length zs)"
        using q(1) pm unfolding k_def by linarith+
      from phi [OF this] show ?thesis unfolding e q(2) k_def [symmetric] by (simp add: not_less)
    qed
    have ys: "ys = insertionSort_func ?lt (take k zs) @ [zs ! k]
        @ insertionSort_func ?lt (drop (Suc k) zs)"
      using r cp pf False long short
      by (simp add: pdqsort_func_def Let_def k_def split: if_splits)
    have "mset ys = mset (take k zs @ zs ! k # drop (Suc k) zs)"
      unfolding ys by (simp add: insertionSort_mset)
    then have m: "mset ys = mset xs" using k pm by (simp add: id_take_nth_drop [symmetric])
    define A where "A = insertionSort_func ?lt (take k zs)"
    define B where "B = insertionSort_func ?lt (drop (Suc k) zs)"
    have a: "key x \<le> key (zs ! k)" if "x \<in> set A" for x
      using lo [of x] that by (simp add: A_def insertionSort_set less_imp_le)
    have b: "key (zs ! k) \<le> key y" if "y \<in> set B" for y
      using hi [of y] that by (simp add: B_def insertionSort_set)
    have ab: "key x \<le> key y" if "x \<in> set A" "y \<in> set B" for x y
      using a [OF that(1)] b [OF that(2)] by (rule order_trans)
    have sa: "sorted (map key A)" and sb: "sorted (map key B)"
      by (simp_all add: A_def B_def insertionSort_sorted)
    have "sorted (map key (A @ [zs ! k] @ B))"
      using a b ab sa sb by (simp add: sorted_append)
    then have "sorted (map key ys)" by (simp add: ys A_def B_def)
    then show ?thesis using m by simp
  qed
qed

text \<open>Sorting by insertion keeps the order of the elements of each key.\<close>

lemma insertLast_filter:
  fixes key :: "'a \<Rightarrow> 'k::linorder"
  shows "filter (\<lambda>z. key z = c) (insertLast (\<lambda>a b. key a < key b) xs x)
     = filter (\<lambda>z. key z = c) (xs @ [x])"
proof (induction "\<lambda>a b. key a < key b" xs x rule: insertLast.induct)
  case (1 xs x)
  show ?case
  proof (cases "xs \<noteq> [] \<and> key x < key (last xs)")
    case True
    define P where "P = (\<lambda>z. key z = c)"
    have xs: "butlast xs @ [last xs] = xs" using True by simp
    have sw: "filter P [x] @ filter P [last xs] = filter P [last xs] @ filter P [x]"
      using True by (auto simp: P_def)
    have "filter P (insertLast (\<lambda>a b. key a < key b) xs x)
        = filter P (insertLast (\<lambda>a b. key a < key b) (butlast xs) x) @ filter P [last xs]"
      using True by (subst insertLast.simps) simp
    also have "\<dots> = filter P (butlast xs @ [x]) @ filter P [last xs]"
      using 1 True by (simp add: P_def)
    also have "\<dots> = filter P (butlast xs) @ (filter P [x] @ filter P [last xs])"
      by (simp only: filter_append append_assoc)
    also have "\<dots> = filter P (butlast xs) @ (filter P [last xs] @ filter P [x])"
      by (simp only: sw)
    also have "\<dots> = filter P (butlast xs @ [last xs]) @ filter P [x]"
      by (simp only: filter_append append_assoc)
    also have "\<dots> = filter P (xs @ [x])"
      by (simp only: xs filter_append)
    finally show ?thesis by (simp only: P_def)
  next
    case False
    then show ?thesis by (subst insertLast.simps) auto
  qed
qed

lemma insertionSort_stable:
  fixes key :: "'a \<Rightarrow> 'k::linorder"
  shows "filter (\<lambda>z. key z = c) (insertionSort_func (\<lambda>a b. key a < key b) xs)
     = filter (\<lambda>z. key z = c) xs"
proof -
  have "filter (\<lambda>z. key z = c) (foldl (insertLast (\<lambda>a b. key a < key b)) acc xs)
      = filter (\<lambda>z. key z = c) (acc @ xs)" for acc
  proof (induction xs arbitrary: acc)
    case Nil
    show ?case by simp
  next
    case (Cons x xs)
    show ?case using Cons [of "insertLast (\<lambda>a b. key a < key b) acc x"]
      insertLast_filter [of key c acc x] by simp
  qed
  from this [of "[]"] show ?thesis by (simp add: insertionSort_func_def)
qed

section \<open>The consolidator\<close>

lemma findingLess_iff: "findingLess a b \<longleftrightarrow> sortKey a < sortKey b"
  by (auto simp: findingLess_def sortKey_def Let_def less_prod_def)

lemma not_findingLess_iff: "\<not> findingLess b a \<longleftrightarrow> sortKey a \<le> sortKey b"
  by (simp add: findingLess_iff not_less)

lemma findingLess_key: "findingLess = (\<lambda>a b. sortKey a < sortKey b)"
  by (intro ext) (rule findingLess_iff)

lemma sortSlice_sorted:
  assumes "sortSlice findingLess xs ys"
  shows "mset ys = mset xs \<and> sorted (map sortKey ys)"
proof (cases "pdqsort_func findingLess xs")
  case None
  then show ?thesis using assms by (simp add: sortSlice_def not_findingLess_iff sorted_map)
next
  case (Some zs)
  then have "pdqsort_func (\<lambda>a b. sortKey a < sortKey b) xs = Some ys"
    using assms by (simp add: sortSlice_def findingLess_key)
  then show ?thesis by (rule pdqsort_func_sorted)
qed

lemma sortSlice_exists: "\<exists>ys. sortSlice findingLess xs ys"
proof (cases "pdqsort_func findingLess xs")
  case None
  then have "sortSlice findingLess xs (sort_key sortKey xs)"
    using sorted_sort_key [of sortKey xs]
    by (simp add: sortSlice_def not_findingLess_iff sorted_map)
  then show ?thesis by blast
next
  case (Some zs)
  then have "sortSlice findingLess xs zs" by (simp add: sortSlice_def)
  then show ?thesis by blast
qed

lemma sortSlice_short:
  "length xs \<le> 12 \<Longrightarrow> sortSlice lt xs ys \<longleftrightarrow> ys = insertionSort_func lt xs"
  by (simp add: sortSlice_def pdqsort_func_def)

lemma sortKey_le_iff:
  "sortKey a \<le> sortKey b \<longleftrightarrow>
     SeverityRank (Severity a) < SeverityRank (Severity b)
     \<or> (SeverityRank (Severity a) = SeverityRank (Severity b) \<and> File a \<le> File b)"
  by (auto simp: sortKey_def less_eq_prod_def)

lemma Analyze_reportOf:
  "Analyze u fs now target sl (reportOf target now fnd) \<longleftrightarrow>
     sortSlice findingLess (deduplicate (collectFindings u fs target sl)) fnd"
  by (simp add: Analyze_def reportOf_def)

lemma Analyze_returns: "\<exists>r. Analyze u fs now target sl r"
proof -
  obtain ys where "sortSlice findingLess (deduplicate (collectFindings u fs target sl)) ys"
    using sortSlice_exists by blast
  then have "Analyze u fs now target sl (reportOf target now ys)"
    by (simp add: Analyze_reportOf)
  then show ?thesis by blast
qed

lemma solidityFiles_stat_error: "stat fs target = Inl e \<Longrightarrow> solidityFiles fs target = Inl e"
  by (simp add: solidityFiles_def)

lemma checkTarget_stat_error:
  "stat fs target = Inl e \<Longrightarrow> checkTarget chk fs target = Inl e"
  by (simp add: checkTarget_def solidityFiles_stat_error)

lemma checkTarget_open_error:
  "stat fs target = Inr False \<Longrightarrow> openFile fs target = Inl e \<Longrightarrow>
     checkTarget (checkInFile scan) fs target = Inl (Wrapped (''opening '' @ target @ '': '') e)"
  by (simp add: checkTarget_def solidityFiles_def checkInFile_def)

lemma checks_open_error:
  assumes "stat fs target = Inr False" "openFile fs target = Inl e"
  shows "CheckReentrancy fs target = Inl (Wrapped (''opening '' @ target @ '': '') e)"
    and "CheckAccessControl u fs target = Inl (Wrapped (''opening '' @ target @ '': '') e)"
    and "CheckIntegerOverflow fs target = Inl (Wrapped (''opening '' @ target @ '': '') e)"
  using assms
  by (simp_all add: CheckReentrancy_def CheckAccessControl_def CheckIntegerOverflow_def
      checkReentrancyInFile_def checkAccessControlInFile_def checkIntegerOverflowInFile_def
      checkTarget_open_error)

lemma collectFindings_stat_error:
  "stat fs target = Inl e \<Longrightarrow> collectFindings u fs target sl = sl"
  by (simp add: collectFindings_def customChecks_def CheckReentrancy_def
      CheckAccessControl_def CheckIntegerOverflow_def checkTarget_stat_error)

lemma collectFindings_open_error:
  "stat fs target = Inr False \<Longrightarrow> openFile fs target = Inl e \<Longrightarrow>
     collectFindings u fs target sl = sl"
  by (simp add: collectFindings_def customChecks_def checks_open_error)

lemma ValidateTarget_refuses:
  assumes "stat fs target = Inl e \<or> (stat fs target = Inr False \<and> Ext target \<noteq> ''.sol'')"
  shows "\<exists>err. ValidateTarget fs target = Some err"
  using assms by (auto simp: ValidateTarget_def)

lemma ValidateTarget_accepts:
  "stat fs target = Inr False \<Longrightarrow> Ext target = ''.sol'' \<Longrightarrow> ValidateTarget fs target = None"
  by (simp add: ValidateTarget_def)

lemma runAnalyze_invalid:
  "ValidateTarget fs target = Some err \<Longrightarrow>
     runAnalyze u fs now target stage outcome \<longleftrightarrow> outcome = Inl err"
  by (simp add: runAnalyze_def)

lemma runAnalyze_valid:
  "ValidateTarget fs target = None \<Longrightarrow>
     runAnalyze u fs now target (Inr sl) outcome \<longleftrightarrow>
       (\<exists>report. outcome = Inr report \<and> Analyze u fs now target sl report)"
  by (cases outcome) (simp_all add: runAnalyze_def)

lemma sample_keys:
  "dedupKey slitherA = ''SWC-107|a.sol|3''" "dedupKey customA = ''SWC-107|a.sol|3''"
  "dedupKey slitherB = ''SWC-107|a.sol|4''" "dedupKey slitherC = ''SWC-107|a.sol|8''"
  by code_simp+

lemma sample_sortKeys:
  "sortKey slitherA = (1, ''a.sol'')" "sortKey slitherB = (3, ''a.sol'')"
  "sortKey slitherC = (1, ''a.sol'')"
  by (simp_all add: sortKey_def slitherA_def slitherB_def slitherC_def emptyFinding_def
      SeverityRank_def SeverityCritical_def SeverityHigh_def SeverityMedium_def
      SeverityLow_def)

lemma fsMissing_stat: "stat fsMissing t = Inl ErrNotExist"
  by (simp add: fsMissing_def)

lemma fsUnreadable_stat: "stat fsUnreadable t = Inr False"
  and fsUnreadable_open: "openFile fsUnreadable t = Inl ErrPermission"
  by (simp_all add: fsUnreadable_def)

text \<open>
  C3, as the code has it. The findings of every report are the deduplicated findings
  rearranged, ascending by severity rank and, among equal ranks, by file path. When
  at most 12 findings are left after deduplication, the findings of each severity
  rank and file keep the order deduplication left them in; the sort is by insertion
  then. A longer list is sorted by partitioning, which does not keep that order.
\<close>

theorem Analyze_findings_sorted:
  assumes "Analyze u fs now target sl r"
  shows "sorted (map sortKey (Findings r))
       \<and> mset (Findings r) = mset (deduplicate (collectFindings u fs target sl))
       \<and> (\<forall>i j. i < j \<and> j < length (Findings r) \<longrightarrow>
            SeverityRank (Severity (Findings r ! i)) \<le> SeverityRank (Severity (Findings r ! j))
            \<and> (SeverityRank (Severity (Findings r ! i)) = SeverityRank (Severity (Findings r ! j))
                 \<longrightarrow> File (Findings r ! i) \<le> File (Findings r ! j)))
       \<and> (length (deduplicate (collectFindings u fs target sl)) \<le> 12 \<longrightarrow>
            (\<forall>k. filter (\<lambda>f. sortKey f = k) (Findings r)
                 = filter (\<lambda>f. sortKey f = k) (deduplicate (collectFindings u fs target sl))))"
proof -
  let ?d = "deduplicate (collectFindings u fs target sl)"
  have ss: "sortSlice findingLess ?d (Findings r)"
    using assms by (simp add: Analyze_def)
  have s: "sorted (map sortKey (Findings r))" and m: "mset (Findings r) = mset ?d"
    using sortSlice_sorted [OF ss] by simp_all
  have k: "SeverityRank (Severity (Findings r ! i)) \<le> SeverityRank (Severity (Findings r ! j))
            \<and> (SeverityRank (Severity (Findings r ! i)) = SeverityRank (Severity (Findings r ! j))
                 \<longrightarrow> File (Findings r ! i) \<le> File (Findings r ! j))"
    if ij: "i < j" "j < length (Findings r)" for i j
  proof -
    have "map sortKey (Findings r) ! i \<le> map sortKey (Findings r) ! j"
      using s ij by (simp add: sorted_iff_nth_mono)
    then have "sortKey (Findings r ! i) \<le> sortKey (Findings r ! j)"
      using ij by simp
    then show ?thesis by (auto simp: sortKey_le_iff)
  qed
  have st: "filter (\<lambda>f. sortKey f = c) (Findings r) = filter (\<lambda>f. sortKey f = c) ?d"
    if "length ?d \<le> 12" for c
  proof -
    have "Findings r = insertionSort_func (\<lambda>a b. sortKey a < sortKey b) ?d"
      using ss that by (simp add: sortSlice_short findingLess_key)
    then show ?thesis by (simp add: insertionSort_stable)
  qed
  show ?thesis using s m k st by blast
qed

theorem Analyze_findings_sorted_witness:
  "Analyze id fsPlain ''now'' ''c.sol'' [slitherB, slitherA, customA, slitherC]
     (reportOf ''c.sol'' ''now'' [slitherA, slitherC, slitherB])
   \<and> deduplicate (collectFindings id fsPlain ''c.sol'' [slitherB, slitherA, customA, slitherC])
       = [slitherB, slitherA, slitherC]
   \<and> map sortKey (Findings (reportOf ''c.sol'' ''now'' [slitherA, slitherC, slitherB]))
       = [(1, ''a.sol''), (1, ''a.sol''), (3, ''a.sol'')]
   \<and> sorted (map sortKey (Findings (reportOf ''c.sol'' ''now'' [slitherA, slitherC, slitherB])))
   \<and> filter (\<lambda>f. sortKey f = (1, ''a.sol''))
        (Findings (reportOf ''c.sol'' ''now'' [slitherA, slitherC, slitherB]))
       = filter (\<lambda>f. sortKey f = (1, ''a.sol'')) [slitherB, slitherA, slitherC]"
proof -
  let ?r = "reportOf ''c.sol'' ''now'' [slitherA, slitherC, slitherB]"
  have d: "deduplicate (collectFindings id fsPlain ''c.sol''
      [slitherB, slitherA, customA, slitherC]) = [slitherB, slitherA, slitherC]"
    by code_simp
  have a: "Analyze id fsPlain ''now'' ''c.sol'' [slitherB, slitherA, customA, slitherC] ?r"
    by code_simp
  have k: "map sortKey (Findings ?r) = [(1, ''a.sol''), (1, ''a.sol''), (3, ''a.sol'')]"
    by (simp add: reportOf_def sample_sortKeys)
  note t = Analyze_findings_sorted [OF a]
  from t have s: "sorted (map sortKey (Findings ?r))"
    by (elim conjE)
  from t have "length (deduplicate (collectFindings id fsPlain ''c.sol''
        [slitherB, slitherA, customA, slitherC])) \<le> 12 \<longrightarrow>
      (\<forall>k. filter (\<lambda>f. sortKey f = k) (Findings ?r)
         = filter (\<lambda>f. sortKey f = k) (deduplicate (collectFindings id fsPlain ''c.sol''
              [slitherB, slitherA, customA, slitherC])))"
    by (elim conjE)
  then have f: "filter (\<lambda>f. sortKey f = (1, ''a.sol'')) (Findings ?r)
       = filter (\<lambda>f. sortKey f = (1, ''a.sol'')) [slitherB, slitherA, slitherC]"
    unfolding d by simp
  show ?thesis using a d k s f by (intro conjI)
qed

text \<open>
  C3 as stated fails in its last part. Thirteen findings with distinct keys survive
  deduplication in their order: twelve of severity High in one file, at lines 1 to
  12, then one of severity Critical. The list is longer than 12 and not in order, so
  it is partitioned: the pivot is the finding at line 7, which goes to the front; the
  Critical finding is exchanged with the finding at line 2; the pivot is put after
  the Critical finding, whose place the finding at line 1 took before. In the
  report the findings at lines 7 and 3 to 6 come before the one at line 1, and the
  one at line 2 comes last, all of one severity and file.
\<close>

theorem Analyze_order_of_equal_keys_counterexample:
  "deduplicate (collectFindings id fsPlain ''c.sol'' thirteenFindings) = thirteenFindings
   \<and> map Lines thirteenFindings
       = [[1], [2], [3], [4], [5], [6], [7], [8], [9], [10], [11], [12], [13]]
   \<and> map sortKey (take 12 thirteenFindings) = replicate 12 (1, ''a.sol'')
   \<and> pdqsort_func findingLess thirteenFindings
       = Some (map (\<lambda>i. thirteenFindings ! i) [12, 6, 2, 3, 4, 5, 0, 7, 8, 9, 10, 11, 1])
   \<and> Analyze id fsPlain ''now'' ''c.sol'' thirteenFindings
       (reportOf ''c.sol'' ''now''
          (map (\<lambda>i. thirteenFindings ! i) [12, 6, 2, 3, 4, 5, 0, 7, 8, 9, 10, 11, 1]))
   \<and> map Lines (Findings (reportOf ''c.sol'' ''now''
          (map (\<lambda>i. thirteenFindings ! i) [12, 6, 2, 3, 4, 5, 0, 7, 8, 9, 10, 11, 1])))
       = [[13], [7], [3], [4], [5], [6], [1], [8], [9], [10], [11], [12], [2]]"
  by code_simp

text \<open>
  C9, as the code has it. A target whose \<open>stat\<close> fails, and a regular file whose name
  does not end in \<open>.sol\<close>, are refused by target validation, and the command then
  ends with that error and with no report. A regular file named \<open>.sol\<close> that cannot be
  opened passes validation; each detector fails on it, \<open>Analyze\<close> drops the errors, and
  the command, given the findings of the external analyzer, ends with a report, whose
  findings are the deduplicated external findings in sorted order. \<open>Analyze\<close> itself
  always returns a report.
\<close>

theorem target_errors_and_swallowed_detector_errors:
  "(stat fs target = Inl e \<or> (stat fs target = Inr False \<and> Ext target \<noteq> ''.sol'') \<longrightarrow>
      (\<exists>err. ValidateTarget fs target = Some err
         \<and> (\<forall>outcome. runAnalyze u fs now target stage outcome \<longleftrightarrow> outcome = Inl err)))
   \<and> (stat fs target = Inr False \<and> Ext target = ''.sol'' \<and> openFile fs target = Inl e' \<longrightarrow>
        ValidateTarget fs target = None
        \<and> CheckReentrancy fs target = Inl (Wrapped (''opening '' @ target @ '': '') e')
        \<and> CheckAccessControl u fs target = Inl (Wrapped (''opening '' @ target @ '': '') e')
        \<and> CheckIntegerOverflow fs target = Inl (Wrapped (''opening '' @ target @ '': '') e')
        \<and> (\<exists>report. runAnalyze u fs now target (Inr sl) (Inr report))
        \<and> (\<forall>outcome. runAnalyze u fs now target (Inr sl) outcome \<longrightarrow>
             (\<exists>report. outcome = Inr report
                \<and> mset (Findings report) = mset (deduplicate sl)
                \<and> sorted (map sortKey (Findings report)))))
   \<and> (\<exists>r. Analyze u fs now target sl r)"
proof -
  have a: "\<exists>err. ValidateTarget fs target = Some err
         \<and> (\<forall>outcome. runAnalyze u fs now target stage outcome \<longleftrightarrow> outcome = Inl err)"
    if "stat fs target = Inl e \<or> (stat fs target = Inr False \<and> Ext target \<noteq> ''.sol'')"
    using ValidateTarget_refuses [OF that] runAnalyze_invalid by blast
  have b: "ValidateTarget fs target = None
        \<and> CheckReentrancy fs target = Inl (Wrapped (''opening '' @ target @ '': '') e')
        \<and> CheckAccessControl u fs target = Inl (Wrapped (''opening '' @ target @ '': '') e')
        \<and> CheckIntegerOverflow fs target = Inl (Wrapped (''opening '' @ target @ '': '') e')
        \<and> (\<exists>report. runAnalyze u fs now target (Inr sl) (Inr report))
        \<and> (\<forall>outcome. runAnalyze u fs now target (Inr sl) outcome \<longrightarrow>
             (\<exists>report. outcome = Inr report
                \<and> mset (Findings report) = mset (deduplicate sl)
                \<and> sorted (map sortKey (Findings report))))"
    if h: "stat fs target = Inr False \<and> Ext target = ''.sol'' \<and> openFile fs target = Inl e'"
  proof -
    have v: "ValidateTarget fs target = None"
      using h by (simp add: ValidateTarget_accepts)
    have c: "collectFindings u fs target sl = sl"
      using h by (simp add: collectFindings_open_error)
    have x: "\<exists>report. runAnalyze u fs now target (Inr sl) (Inr report)"
      using Analyze_returns [of u fs now target sl] by (simp add: runAnalyze_valid [OF v])
    have y: "\<exists>report. outcome = Inr report
                \<and> mset (Findings report) = mset (deduplicate sl)
                \<and> sorted (map sortKey (Findings report))"
      if ra: "runAnalyze u fs now target (Inr sl) outcome" for outcome
    proof -
      obtain report where o: "outcome = Inr report" and an: "Analyze u fs now target sl report"
        using ra unfolding runAnalyze_valid [OF v] by blast
      have "sortSlice findingLess (deduplicate sl) (Findings report)"
        using an c by (simp add: Analyze_def)
      from sortSlice_sorted [OF this] show ?thesis using o by simp
    qed
    have hs: "stat fs target = Inr False" "openFile fs target = Inl e'"
      using h by simp_all
    show ?thesis using v checks_open_error [OF hs] x y by blast
  qed
  show ?thesis using a b Analyze_returns by blast
qed

theorem target_errors_witness:
  "stat fsMissing ''t.sol'' = Inl ErrNotExist
   \<and> ValidateTarget fsMissing ''t.sol'' = Some (Errorf ''target not found: t.sol'')
   \<and> runAnalyze id fsMissing ''now'' ''t.sol'' (Inr [slitherA])
       (Inl (Errorf ''target not found: t.sol''))
   \<and> \<not> runAnalyze id fsMissing ''now'' ''t.sol'' (Inr [slitherA])
       (Inr (reportOf ''t.sol'' ''now'' [slitherA]))
   \<and> stat fsUnreadable ''a.txt'' = Inr False
   \<and> ValidateTarget fsUnreadable ''a.txt''
       = Some (Errorf ''target must be a .sol file or a directory, got: a.txt'')
   \<and> \<not> runAnalyze id fsUnreadable ''now'' ''a.txt'' (Inr [slitherA])
       (Inr (reportOf ''a.txt'' ''now'' [slitherA]))
   \<and> stat fsUnreadable ''a.sol'' = Inr False
   \<and> Ext ''a.sol'' = ''.sol''
   \<and> openFile fsUnreadable ''a.sol'' = Inl ErrPermission
   \<and> ValidateTarget fsUnreadable ''a.sol'' = None
   \<and> runAnalyze id fsUnreadable ''now'' ''a.sol'' (Inr [slitherA])
       (Inr (reportOf ''a.sol'' ''now'' [slitherA]))"
proof -
  have v1: "ValidateTarget fsMissing ''t.sol'' = Some (Errorf ''target not found: t.sol'')"
    by (simp add: ValidateTarget_def fsMissing_stat IsNotExist_def)
  have x2: "Ext ''a.txt'' \<noteq> ''.sol''" by code_simp
  have v2: "ValidateTarget fsUnreadable ''a.txt''
       = Some (Errorf ''target must be a .sol file or a directory, got: a.txt'')"
    using x2 by (simp add: ValidateTarget_def fsUnreadable_stat)
  have x3: "Ext ''a.sol'' = ''.sol''" by code_simp
  note t1 = target_errors_and_swallowed_detector_errors
    [of fsMissing "''t.sol''" ErrNotExist id "''now''" "Inr [slitherA]"]
  have h1: "stat fsMissing ''t.sol'' = Inl ErrNotExist
      \<or> (stat fsMissing ''t.sol'' = Inr False \<and> Ext ''t.sol'' \<noteq> ''.sol'')"
    by (simp add: fsMissing_stat)
  from t1 h1 have "\<exists>err. ValidateTarget fsMissing ''t.sol'' = Some err
         \<and> (\<forall>outcome. runAnalyze id fsMissing ''now'' ''t.sol'' (Inr [slitherA]) outcome
                \<longleftrightarrow> outcome = Inl err)"
    by blast
  then have r1: "\<forall>outcome. runAnalyze id fsMissing ''now'' ''t.sol'' (Inr [slitherA]) outcome
                \<longleftrightarrow> outcome = Inl (Errorf ''target not found: t.sol'')"
    unfolding v1 by simp
  note t2 = target_errors_and_swallowed_detector_errors
    [of fsUnreadable "''a.txt''" ErrNotExist id "''now''" "Inr [slitherA]"]
  have h2: "stat fsUnreadable ''a.txt'' = Inl ErrNotExist
      \<or> (stat fsUnreadable ''a.txt'' = Inr False \<and> Ext ''a.txt'' \<noteq> ''.sol'')"
    using x2 by (simp add: fsUnreadable_stat)
  from t2 h2 have "\<exists>err. ValidateTarget fsUnreadable ''a.txt'' = Some err
         \<and> (\<forall>outcome. runAnalyze id fsUnreadable ''now'' ''a.txt'' (Inr [slitherA]) outcome
                \<longleftrightarrow> outcome = Inl err)"
    by blast
  then have r2: "\<forall>outcome. runAnalyze id fsUnreadable ''now'' ''a.txt'' (Inr [slitherA]) outcome
                \<longleftrightarrow> outcome
                  = Inl (Errorf ''target must be a .sol file or a directory, got: a.txt'')"
    unfolding v2 by simp
  note t3 = target_errors_and_swallowed_detector_errors
    [of fsUnreadable "''a.sol''" _ id "''now''" _ ErrPermission "[slitherA]"]
  have h3: "stat fsUnreadable ''a.sol'' = Inr False \<and> Ext ''a.sol'' = ''.sol''
      \<and> openFile fsUnreadable ''a.sol'' = Inl ErrPermission"
    using x3 by (simp add: fsUnreadable_stat fsUnreadable_open)
  from t3 h3 have v3: "ValidateTarget fsUnreadable ''a.sol'' = None"
    by blast
  have d: "deduplicate [slitherA] = [slitherA]"
    by (simp add: deduplicate_def)
  have "Analyze id fsUnreadable ''now'' ''a.sol'' [slitherA]
      (reportOf ''a.sol'' ''now'' [slitherA])"
    unfolding Analyze_reportOf
      collectFindings_open_error [OF fsUnreadable_stat fsUnreadable_open] d
    by (simp add: sortSlice_short insertionSort_func_def insertLast.simps)
  then have r3: "runAnalyze id fsUnreadable ''now'' ''a.sol'' (Inr [slitherA])
       (Inr (reportOf ''a.sol'' ''now'' [slitherA]))"
    by (simp add: runAnalyze_valid [OF v3])
  show ?thesis
    using fsMissing_stat [of "''t.sol''"] v1 r1 fsUnreadable_stat [of "''a.txt''"] v2 r2
      fsUnreadable_stat [of "''a.sol''"] x3 fsUnreadable_open [of "''a.sol''"] v3 r3
    by simp
qed

text \<open>
  C9 as stated fails for an unreadable target: the file passes validation, each
  detector fails to open it, and the command goes on to a report that holds only the
  external findings.
\<close>

theorem unreadable_target_report_counterexample:
  "ValidateTarget fsUnreadable ''a.sol'' = None
   \<and> openFile fsUnreadable ''a.sol'' = Inl ErrPermission
   \<and> CheckReentrancy fsUnreadable ''a.sol'' = Inl (Wrapped ''opening a.sol: '' ErrPermission)
   \<and> runAnalyze id fsUnreadable ''now'' ''a.sol'' (Inr [slitherA])
       (Inr (reportOf ''a.sol'' ''now'' [slitherA]))
   \<and> Findings (reportOf ''a.sol'' ''now'' [slitherA]) = [slitherA]"
proof -
  have x: "Ext ''a.sol'' = ''.sol''" by code_simp
  have v: "ValidateTarget fsUnreadable ''a.sol'' = None"
    by (simp add: ValidateTarget_def fsUnreadable_stat x)
  have c: "CheckReentrancy fsUnreadable ''a.sol'' = Inl (Wrapped ''opening a.sol: '' ErrPermission)"
    using checks_open_error(1) [OF fsUnreadable_stat fsUnreadable_open, of "''a.sol''"]
    by simp
  have d: "deduplicate [slitherA] = [slitherA]"
    by (simp add: deduplicate_def)
  have a: "Analyze id fsUnreadable ''now'' ''a.sol'' [slitherA]
      (reportOf ''a.sol'' ''now'' [slitherA])"
    unfolding Analyze_reportOf
      collectFindings_open_error [OF fsUnreadable_stat fsUnreadable_open] d
    by (simp add: sortSlice_short insertionSort_func_def insertLast.simps)
  have r: "runAnalyze id fsUnreadable ''now'' ''a.sol'' (Inr [slitherA])
       (Inr (reportOf ''a.sol'' ''now'' [slitherA]))"
    by (simp add: runAnalyze_def v a)
  have f: "Findings (reportOf ''a.sol'' ''now'' [slitherA]) = [slitherA]"
    by (simp add: reportOf_def)
  show ?thesis using v fsUnreadable_open [of "''a.sol''"] c r f by (intro conjI)
qed

end
